theory Spec2Isabelle
  imports Complex_Main "HOL-Library.Word"
begin

unbundle bit_operations_syntax

section \<open>Python values, exceptions and containers\<close>

text \<open>
  The exceptions the two scripts can raise. A computation that may raise has the type
  \<open>py_error + 'a\<close>: \<open>Inl e\<close> is "raised e", \<open>Inr v\<close> is "returned v".
\<close>

datatype py_error =
  OSError | KeyError string | IndexError | ZeroDivisionError | OverflowError | ValueError
| SystemExit

definition bindE :: "py_error + 'a \<Rightarrow> ('a \<Rightarrow> py_error + 'b) \<Rightarrow> py_error + 'b" where
  "bindE m f = (case m of Inl e \<Rightarrow> Inl e | Inr v \<Rightarrow> f v)"

text \<open>\<open>xs[i]\<close> on a Python list: a negative index counts from the end, an index out of
  range raises IndexError.\<close>

definition py_getitem :: "'a list \<Rightarrow> int \<Rightarrow> py_error + 'a" where
  "py_getitem xs i =
     (if 0 \<le> i \<and> i < int (length xs) then Inr (xs ! nat i)
      else if i < 0 \<and> 0 \<le> int (length xs) + i then Inr (xs ! nat (int (length xs) + i))
      else Inl IndexError)"

text \<open>\<open>d[k]\<close> on a Python dict with string keys: a missing key raises KeyError.\<close>

definition py_dict_get :: "(string \<rightharpoonup> 'v) \<Rightarrow> string \<Rightarrow> py_error + 'v" where
  "py_dict_get d k = (case d k of None \<Rightarrow> Inl (KeyError k) | Some v \<Rightarrow> Inr v)"

section \<open>Python floats: IEEE 754 binary64, round to nearest, ties to even\<close>

text \<open>
  A Python float is a binary64 value. The finite ones are rationals; the two zeros are
  identified (Python's \<open>==\<close> does not tell them apart and no operation of the scripts
  does either). Every arithmetic operation computes the exact rational result and rounds
  it with \<open>rnd64\<close>: 53 significant bits, quantum \<open>2^-1074\<close> in the subnormal range,
  infinity when the rounded value reaches \<open>2^1024\<close> (its exponent is 1024 then).
\<close>

datatype pyfloat = Fin rat | PInf | NInf | NaN

function bit_length :: "int \<Rightarrow> int" where
  "bit_length n = (if n \<le> 0 then 0 else 1 + bit_length (n div 2))"
  by pat_completeness auto
termination
  by (relation "measure nat") auto

declare bit_length.simps [simp del]

text \<open>\<open>ilog2 x\<close> is the exponent \<open>e\<close> with \<open>2^e \<le> x < 2^(e+1)\<close>, for \<open>x > 0\<close>.\<close>

definition ilog2 :: "rat \<Rightarrow> int" where
  "ilog2 x = (if 1 \<le> x then bit_length \<lfloor>x\<rfloor> - 1
              else - bit_length (\<lceil>1 / x\<rceil> - 1))"

definition pow2 :: "int \<Rightarrow> rat" where
  "pow2 e = (if 0 \<le> e then 2 ^ nat e else 1 / 2 ^ nat (- e))"

definition round_half_even :: "rat \<Rightarrow> int" where
  "round_half_even x =
     (let f = \<lfloor>x\<rfloor>; d = x - of_int f
      in if d < 1 / 2 then f
         else if 1 / 2 < d then f + 1
         else if even f then f else f + 1)"

definition rnd64 :: "rat \<Rightarrow> pyfloat" where
  "rnd64 x =
     (if x = 0 then Fin 0
      else let e = max (ilog2 \<bar>x\<bar>) (- 1022);
               q = pow2 (e - 52);
               r = of_int (round_half_even (\<bar>x\<bar> / q)) * q
           in if 1024 \<le> ilog2 r then (if 0 < x then PInf else NInf)
              else Fin (if 0 < x then r else - r))"

definition is_finite :: "pyfloat \<Rightarrow> bool" where
  "is_finite x = (case x of Fin _ \<Rightarrow> True | _ \<Rightarrow> False)"

definition fnegative :: "pyfloat \<Rightarrow> bool" where
  "fnegative x = (case x of Fin a \<Rightarrow> a < 0 | NInf \<Rightarrow> True | _ \<Rightarrow> False)"

definition fneg :: "pyfloat \<Rightarrow> pyfloat" where
  "fneg x = (case x of Fin a \<Rightarrow> Fin (- a) | PInf \<Rightarrow> NInf | NInf \<Rightarrow> PInf | NaN \<Rightarrow> NaN)"

definition fadd :: "pyfloat \<Rightarrow> pyfloat \<Rightarrow> pyfloat" where
  "fadd x y =
     (case (x, y) of
        (Fin a, Fin b) \<Rightarrow> rnd64 (a + b)
      | _ \<Rightarrow> if x = NaN \<or> y = NaN then NaN
             else if is_finite x then y
             else if is_finite y then x
             else if x = y then x else NaN)"

definition fsub :: "pyfloat \<Rightarrow> pyfloat \<Rightarrow> pyfloat" where
  "fsub x y = fadd x (fneg y)"

definition fmul :: "pyfloat \<Rightarrow> pyfloat \<Rightarrow> pyfloat" where
  "fmul x y =
     (case (x, y) of
        (Fin a, Fin b) \<Rightarrow> rnd64 (a * b)
      | _ \<Rightarrow> if x = NaN \<or> y = NaN \<or> x = Fin 0 \<or> y = Fin 0 then NaN
             else if fnegative x = fnegative y then PInf else NInf)"

text \<open>\<open>fdiv\<close> is the IEEE quotient for a divisor that is not zero; Python tests the
  divisor before dividing (\<open>py_truediv\<close> below).\<close>

definition fdiv :: "pyfloat \<Rightarrow> pyfloat \<Rightarrow> pyfloat" where
  "fdiv x y =
     (case (x, y) of
        (Fin a, Fin b) \<Rightarrow> rnd64 (a / b)
      | _ \<Rightarrow> if x = NaN \<or> y = NaN then NaN
             else if is_finite x then Fin 0
             else if is_finite y then (if fnegative x = fnegative y then PInf else NInf)
             else NaN)"

section \<open>Python numbers: int and float, with the coercions of the operators\<close>

datatype pyval = I int | F pyfloat

text \<open>An int operand of a mixed operation is converted to float first; an int too
  large for a float raises OverflowError.\<close>

definition float_of_int :: "int \<Rightarrow> py_error + pyfloat" where
  "float_of_int n = (case rnd64 (of_int n) of Fin r \<Rightarrow> Inr (Fin r) | _ \<Rightarrow> Inl OverflowError)"

definition as_float :: "pyval \<Rightarrow> py_error + pyfloat" where
  "as_float v = (case v of I n \<Rightarrow> float_of_int n | F x \<Rightarrow> Inr x)"

definition float_op :: "(pyfloat \<Rightarrow> pyfloat \<Rightarrow> pyfloat) \<Rightarrow> pyval \<Rightarrow> pyval \<Rightarrow> py_error + pyval" where
  "float_op f a b = bindE (as_float a) (\<lambda>x. bindE (as_float b) (\<lambda>y. Inr (F (f x y))))"

definition py_add :: "pyval \<Rightarrow> pyval \<Rightarrow> py_error + pyval" where
  "py_add a b = (case (a, b) of (I m, I n) \<Rightarrow> Inr (I (m + n)) | _ \<Rightarrow> float_op fadd a b)"

definition py_sub :: "pyval \<Rightarrow> pyval \<Rightarrow> py_error + pyval" where
  "py_sub a b = (case (a, b) of (I m, I n) \<Rightarrow> Inr (I (m - n)) | _ \<Rightarrow> float_op fsub a b)"

definition py_mul :: "pyval \<Rightarrow> pyval \<Rightarrow> py_error + pyval" where
  "py_mul a b = (case (a, b) of (I m, I n) \<Rightarrow> Inr (I (m * n)) | _ \<Rightarrow> float_op fmul a b)"

text \<open>\<open>a / b\<close>: true division. Both operands become floats, a zero divisor raises
  ZeroDivisionError; the quotient of two ints is the correctly rounded exact quotient and
  raises OverflowError when it does not fit.\<close>

definition py_truediv :: "pyval \<Rightarrow> pyval \<Rightarrow> py_error + pyval" where
  "py_truediv a b =
     (case (a, b) of
        (I m, I n) \<Rightarrow>
          (if n = 0 then Inl ZeroDivisionError
           else case rnd64 (of_int m / of_int n) of
                  Fin r \<Rightarrow> Inr (F (Fin r)) | _ \<Rightarrow> Inl OverflowError)
      | _ \<Rightarrow>
          bindE (as_float a) (\<lambda>x. bindE (as_float b) (\<lambda>y.
            if y = Fin 0 then Inl ZeroDivisionError else Inr (F (fdiv x y)))))"

text \<open>
  \<open>v ** 2\<close>. On an int it is the exact square. On a float CPython's \<open>float_pow\<close> answers
  the special cases itself (NaN, the infinities, zero, and \<open>1.0\<close> after the sign of a
  negative base has been dropped for the even exponent) and calls the C library's
  \<open>pow(|x|, 2.0)\<close> for the rest. The library function is not specified to round
  correctly, so it is a parameter \<open>libm_pow\<close>, from two finite doubles to a double; an
  infinite result raises OverflowError and a NaN result ValueError.
\<close>

definition float_pow2 :: "(rat \<Rightarrow> rat \<Rightarrow> pyfloat) \<Rightarrow> pyfloat \<Rightarrow> py_error + pyfloat" where
  "float_pow2 libm_pow x =
     (case x of
        NaN \<Rightarrow> Inr NaN
      | PInf \<Rightarrow> Inr PInf
      | NInf \<Rightarrow> Inr PInf
      | Fin a \<Rightarrow>
          if a = 0 then Inr (Fin 0)
          else if \<bar>a\<bar> = 1 then Inr (Fin 1)
          else (case libm_pow \<bar>a\<bar> 2 of
                  Fin r \<Rightarrow> Inr (Fin r)
                | NaN \<Rightarrow> Inl ValueError
                | _ \<Rightarrow> Inl OverflowError))"

definition py_pow2 :: "(rat \<Rightarrow> rat \<Rightarrow> pyfloat) \<Rightarrow> pyval \<Rightarrow> py_error + pyval" where
  "py_pow2 libm_pow v =
     (case v of
        I m \<Rightarrow> Inr (I (m * m))
      | F x \<Rightarrow> bindE (float_pow2 libm_pow x) (\<lambda>r. Inr (F r)))"

text \<open>\<open>v == 0\<close>.\<close>

definition py_eq_zero :: "pyval \<Rightarrow> bool" where
  "py_eq_zero v = (case v of I n \<Rightarrow> n = 0 | F x \<Rightarrow> x = Fin 0)"

text \<open>Expressions: operands are evaluated left to right, then the operator is applied.\<close>

definition opE :: "(pyval \<Rightarrow> pyval \<Rightarrow> py_error + pyval) \<Rightarrow>
    py_error + pyval \<Rightarrow> py_error + pyval \<Rightarrow> py_error + pyval" where
  "opE f ea eb = bindE ea (\<lambda>a. bindE eb (\<lambda>b. f a b))"

definition num :: "int \<Rightarrow> py_error + pyval" where
  "num n = Inr (I n)"

definition lit :: "rat \<Rightarrow> py_error + pyval" where
  "lit r = Inr (F (Fin r))"

definition var :: "pyval \<Rightarrow> py_error + pyval" where
  "var v = Inr v"

definition item :: "(string \<rightharpoonup> int) \<Rightarrow> string \<Rightarrow> py_error + pyval" where
  "item d k = bindE (py_dict_get d k) (\<lambda>n. Inr (I n))"


section \<open>The bus\<close>

text \<open>
  Both scripts talk to their device through one module-level \<open>smbus.SMBus\<close> object. A
  transaction either returns a list of bytes (empty for a write) or raises. The device
  behind the bus is a transition function on a state of its own; the world threaded through
  the drivers is the device state and the log of the transactions issued so far.
\<close>

datatype txn =
  Write_byte int int
| Write_byte_data int int int
| Read_i2c_block_data int int int

type_synonym 's smbus = "'s \<Rightarrow> txn \<Rightarrow> (py_error + int list) \<times> 's"

type_synonym 's world = "'s \<times> txn list"

definition transact :: "'s smbus \<Rightarrow> txn \<Rightarrow> 's world \<Rightarrow> (py_error + int list) \<times> 's world" where
  "transact bus t w = (case bus (fst w) t of (r, s') \<Rightarrow> (r, (s', snd w @ [t])))"

section \<open>baro.py: the BMP280 barometer\<close>


text \<open>Lines 17-23: the two helpers have the same body.\<close>

definition get_short :: "int list \<Rightarrow> int \<Rightarrow> py_error + int" where
  "get_short data index =
     bindE (py_getitem data (index + 1)) (\<lambda>hi.
     bindE (py_getitem data index) (\<lambda>lo.
     Inr (push_bit 8 hi + lo)))"

definition get_ushort :: "int list \<Rightarrow> int \<Rightarrow> py_error + int" where
  "get_ushort data index =
     bindE (py_getitem data (index + 1)) (\<lambda>hi.
     bindE (py_getitem data index) (\<lambda>lo.
     Inr (push_bit 8 hi + lo)))"

text \<open>Lines 34-35, and the same two lines for every other signed coefficient:
  \<open>v = (calib[hi] << 8) | calib[lo]\<close>, then \<open>if v > 32767: v -= 65536\<close>.\<close>

definition signed_field :: "int list \<Rightarrow> int \<Rightarrow> int \<Rightarrow> py_error + int" where
  "signed_field calib hi lo =
     bindE (py_getitem calib hi) (\<lambda>h.
     bindE (py_getitem calib lo) (\<lambda>l.
     let v = push_bit 8 h OR l
     in Inr (if v > 32767 then v - 65536 else v)))"

text \<open>Lines 31-57 of \<open>read_calibration_data\<close>: the dict built from the frame.\<close>

definition parse_calibration :: "int list \<Rightarrow> py_error + (string \<rightharpoonup> int)" where
  "parse_calibration calib =
     bindE (get_ushort calib 0) (\<lambda>T1.
     bindE (signed_field calib 3 2) (\<lambda>T2.
     bindE (signed_field calib 5 4) (\<lambda>T3.
     bindE (get_ushort calib 6) (\<lambda>P1.
     bindE (signed_field calib 9 8) (\<lambda>P2.
     bindE (signed_field calib 11 10) (\<lambda>P3.
     bindE (signed_field calib 13 12) (\<lambda>P4.
     bindE (signed_field calib 15 14) (\<lambda>P5.
     bindE (signed_field calib 17 16) (\<lambda>P6.
     bindE (signed_field calib 19 18) (\<lambda>P7.
     bindE (signed_field calib 21 20) (\<lambda>P8.
     bindE (signed_field calib 23 22) (\<lambda>P9.
     Inr [''T1'' \<mapsto> T1, ''T2'' \<mapsto> T2, ''T3'' \<mapsto> T3,
          ''P1'' \<mapsto> P1, ''P2'' \<mapsto> P2, ''P3'' \<mapsto> P3, ''P4'' \<mapsto> P4, ''P5'' \<mapsto> P5,
          ''P6'' \<mapsto> P6, ''P7'' \<mapsto> P7, ''P8'' \<mapsto> P8, ''P9'' \<mapsto> P9]))))))))))))"



text \<open>Lines 76-77 of \<open>read_data\<close>, for one three-byte field.\<close>

definition u20FromTriplet :: "int \<Rightarrow> int \<Rightarrow> int \<Rightarrow> int" where
  "u20FromTriplet msb lsb xlsb = push_bit 12 msb OR push_bit 4 lsb OR drop_bit 4 xlsb"

text \<open>Lines 80-83 of \<open>read_data\<close>: the pair \<open>(t_fine, temp_c)\<close>.\<close>

definition read_data_temperature ::
    "(rat \<Rightarrow> rat \<Rightarrow> pyfloat) \<Rightarrow> (string \<rightharpoonup> int) \<Rightarrow> int \<Rightarrow> py_error + (pyval \<times> pyval)" where
  "read_data_temperature libm_pow dig adc_t =
     bindE (opE py_mul (opE py_sub (opE py_truediv (num adc_t) (lit 16384))
                                   (opE py_truediv (item dig ''T1'') (lit 1024)))
                       (item dig ''T2'')) (\<lambda>var1.
     bindE (opE py_mul (bindE (opE py_sub (opE py_truediv (num adc_t) (lit 131072))
                                          (opE py_truediv (item dig ''T1'') (lit 8192)))
                              (py_pow2 libm_pow))
                       (item dig ''T3'')) (\<lambda>var2.
     bindE (py_add var1 var2) (\<lambda>t_fine.
     bindE (py_truediv t_fine (F (Fin 5120))) (\<lambda>temp_c.
     Inr (t_fine, temp_c)))))"

text \<open>Lines 86-91 of \<open>read_data\<close>: the pair \<open>(var1, var2)\<close> as it stands before the test
  \<open>var1 == 0\<close>.\<close>

definition read_data_pressure_setup ::
    "(string \<rightharpoonup> int) \<Rightarrow> pyval \<Rightarrow> py_error + (pyval \<times> pyval)" where
  "read_data_pressure_setup dig t_fine =
     bindE (opE py_sub (opE py_truediv (var t_fine) (lit 2)) (lit 64000)) (\<lambda>var1.
     bindE (opE py_truediv (opE py_mul (opE py_mul (var var1) (var var1)) (item dig ''P6''))
                           (lit 32768)) (\<lambda>var2.
     bindE (opE py_add (var var2)
                       (opE py_mul (opE py_mul (var var1) (item dig ''P5'')) (lit 2))) (\<lambda>var2.
     bindE (opE py_add (opE py_truediv (var var2) (lit 4))
                       (opE py_mul (item dig ''P4'') (lit 65536))) (\<lambda>var2.
     bindE (opE py_truediv
              (opE py_add
                 (opE py_truediv (opE py_mul (opE py_mul (item dig ''P3'') (var var1)) (var var1))
                                 (lit 524288))
                 (opE py_mul (item dig ''P2'') (var var1)))
              (lit 524288)) (\<lambda>var1.
     bindE (opE py_mul (opE py_add (lit 1) (opE py_truediv (var var1) (lit 32768)))
                       (item dig ''P1'')) (\<lambda>var1.
     Inr (var1, var2)))))))"

text \<open>Lines 93-100 of \<open>read_data\<close>: the value of \<open>pressure\<close>, in Pascal.\<close>

definition read_data_pressure ::
    "(string \<rightharpoonup> int) \<Rightarrow> int \<Rightarrow> pyval \<Rightarrow> pyval \<Rightarrow> py_error + pyval" where
  "read_data_pressure dig adc_p var1 var2 =
     (if py_eq_zero var1 then Inr (I 0)
      else
        bindE (opE py_sub (lit 1048576) (num adc_p)) (\<lambda>p.
        bindE (opE py_truediv
                 (opE py_mul (opE py_sub (var p) (opE py_truediv (var var2) (lit 4096)))
                             (lit 6250))
                 (var var1)) (\<lambda>p.
        bindE (opE py_truediv (opE py_mul (opE py_mul (item dig ''P9'') (var p)) (var p))
                              (lit 2147483648)) (\<lambda>var1.
        bindE (opE py_truediv (opE py_mul (var p) (item dig ''P8'')) (lit 32768)) (\<lambda>var2.
        opE py_add (var p)
           (opE py_truediv (opE py_add (opE py_add (var var1) (var var2)) (item dig ''P7''))
                           (lit 16)))))))"

text \<open>Lines 79-103 of \<open>read_data\<close>: from the two ADC codes to \<open>(temp_c, pressure / 100.0)\<close>.\<close>

definition compensate ::
    "(rat \<Rightarrow> rat \<Rightarrow> pyfloat) \<Rightarrow> (string \<rightharpoonup> int) \<Rightarrow> int \<Rightarrow> int \<Rightarrow> py_error + (pyval \<times> pyval)" where
  "compensate libm_pow dig adc_t adc_p =
     bindE (read_data_temperature libm_pow dig adc_t) (\<lambda>(t_fine, temp_c).
     bindE (read_data_pressure_setup dig t_fine) (\<lambda>(var1, var2).
     bindE (read_data_pressure dig adc_p var1 var2) (\<lambda>pressure.
     bindE (py_truediv pressure (F (Fin 100))) (\<lambda>hpa.
     Inr (temp_c, hpa)))))"








section \<open>3dh.py: the MLX90393 magnetometer\<close>

definition DEVICE_ADDR_3dh :: int where "DEVICE_ADDR_3dh = 0x0C"
definition CMD_SB :: int where "CMD_SB = 0x10"
definition CMD_SM :: int where "CMD_SM = 0x30"
definition CMD_RM :: int where "CMD_RM = 0x40"
definition CMD_EX :: int where "CMD_EX = 0x80"
definition AXIS_MASK :: int where "AXIS_MASK = 0x0E"

text \<open>Lines 24-32. \<open>exit()\<close> in the handler raises SystemExit.\<close>

definition start_measurement :: "'s smbus \<Rightarrow> 's world \<Rightarrow> (py_error + unit) \<times> 's world" where
  "start_measurement bus w =
     (let cmd = CMD_SM OR AXIS_MASK
      in case transact bus (Write_byte DEVICE_ADDR_3dh cmd) w of
           (Inl e, w') \<Rightarrow> (if e = OSError then Inl SystemExit else Inl e, w')
         | (Inr _, w') \<Rightarrow> (Inr (), w'))"

text \<open>Lines 57 and 62 of \<open>read_data\<close> (and 58/63, 59/64):
  \<open>x = (data[1] << 8) | data[2]\<close>, then \<open>if x > 32767: x -= 65536\<close>.\<close>

definition beInt16 :: "int \<Rightarrow> int \<Rightarrow> int" where
  "beInt16 hi lo = (let x = push_bit 8 hi OR lo in if x > 32767 then x - 65536 else x)"

text \<open>Lines 57-66 of \<open>read_data\<close>: the three axis values of a frame.\<close>

definition decode_axes :: "int list \<Rightarrow> py_error + (int \<times> int \<times> int)" where
  "decode_axes data =
     bindE (py_getitem data 1) (\<lambda>d1.
     bindE (py_getitem data 2) (\<lambda>d2.
     bindE (py_getitem data 3) (\<lambda>d3.
     bindE (py_getitem data 4) (\<lambda>d4.
     bindE (py_getitem data 5) (\<lambda>d5.
     bindE (py_getitem data 6) (\<lambda>d6.
     Inr (beInt16 d1 d2, beInt16 d3 d4, beInt16 d5 d6)))))))"

text \<open>Lines 34-66. The result \<open>Inr None\<close> is the returned \<open>None\<close>.\<close>

definition read_data_3dh ::
    "'s smbus \<Rightarrow> 's world \<Rightarrow> (py_error + (int \<times> int \<times> int) option) \<times> 's world" where
  "read_data_3dh bus w =
     (let cmd = CMD_RM OR AXIS_MASK
      in case transact bus (Read_i2c_block_data DEVICE_ADDR_3dh cmd 7) w of
           (Inl e, w') \<Rightarrow> (if e = OSError then Inr None else Inl e, w')
         | (Inr data, w') \<Rightarrow> (bindE (decode_axes data) (\<lambda>v. Inr (Some v)), w'))"

text \<open>Line 86: \<open>(x**2 + y**2 + z**2) ** 0.5\<close>. The three axis values are ints, so the sum
  of the squares is an exact int; the last \<open>**\<close>, with the exponent \<open>0.5\<close>, goes to the C
  library, and Python's operator is a parameter \<open>py_pow\<close> there.\<close>

definition magnitude :: "(rat \<Rightarrow> rat \<Rightarrow> pyfloat) \<Rightarrow> (pyval \<Rightarrow> pyval \<Rightarrow> py_error + pyval)
    \<Rightarrow> int \<Rightarrow> int \<Rightarrow> int \<Rightarrow> py_error + pyval" where
  "magnitude libm_pow py_pow x y z =
     bindE (opE py_add (opE py_add (py_pow2 libm_pow (I x)) (py_pow2 libm_pow (I y)))
                       (py_pow2 libm_pow (I z))) (\<lambda>s.
     py_pow s (F (Fin (1 / 2))))"


section \<open>Reference data\<close>

text \<open>The calibration set of the reference example, and the 24-byte calibration frame that
  holds it.\<close>

definition reference_dig :: "string \<rightharpoonup> int" where
  "reference_dig = [''T1'' \<mapsto> 27504, ''T2'' \<mapsto> 26435, ''T3'' \<mapsto> - 1000,
     ''P1'' \<mapsto> 36477, ''P2'' \<mapsto> - 10685, ''P3'' \<mapsto> 3024, ''P4'' \<mapsto> 2855, ''P5'' \<mapsto> 140,
     ''P6'' \<mapsto> - 7, ''P7'' \<mapsto> 15500, ''P8'' \<mapsto> - 14600, ''P9'' \<mapsto> 6000]"

definition reference_frame :: "int list" where
  "reference_frame =
     [0x70, 0x6B, 0x43, 0x67, 0x18, 0xFC, 0x7D, 0x8E, 0x43, 0xD6, 0xD0, 0x0B,
      0x27, 0x0B, 0x8C, 0x00, 0xF9, 0xFF, 0x8C, 0x3C, 0xF8, 0xC6, 0x70, 0x17]"

section \<open>Transports and libraries for the examples\<close>



definition libm_rn :: "rat \<Rightarrow> rat \<Rightarrow> pyfloat" where
  "libm_rn a b = (if b = 2 then rnd64 (a * a) else NaN)"



definition frame_bus :: "int list \<Rightarrow> unit smbus" where
  "frame_bus frame s t = (case t of Read_i2c_block_data a c n \<Rightarrow> (Inr frame, s) | _ \<Rightarrow> (Inr [], s))"


section \<open>Notions of the specification\<close>

definition byte :: "int \<Rightarrow> bool" where
  "byte b = (0 \<le> b \<and> b \<le> 255)"

text \<open>The codec of the specification (section 4.2), in its words: \<open>leUint16(lo, hi)\<close> is
  \<open>(hi << 8) | lo\<close>, and the signed variant maps the values from \<open>0x8000\<close> on to the
  negative ones by subtracting \<open>0x10000\<close>.\<close>

definition spec_leUint16 :: "int \<Rightarrow> int \<Rightarrow> int" where
  "spec_leUint16 lo hi = push_bit 8 hi OR lo"

definition spec_leInt16 :: "int \<Rightarrow> int \<Rightarrow> int" where
  "spec_leInt16 lo hi =
     (if spec_leUint16 lo hi \<ge> 0x8000 then spec_leUint16 lo hi - 0x10000
      else spec_leUint16 lo hi)"

text \<open>\<open>approx v ref tol\<close>: the number \<open>v\<close> is finite and within the relative tolerance \<open>tol\<close>
  of \<open>ref\<close>.\<close>

definition approx :: "pyval \<Rightarrow> rat \<Rightarrow> rat \<Rightarrow> bool" where
  "approx v ref tol =
     (case v of
        F (Fin x) \<Rightarrow> \<bar>x - ref\<bar> \<le> tol * \<bar>ref\<bar>
      | I n \<Rightarrow> \<bar>of_int n - ref\<bar> \<le> tol * \<bar>ref\<bar>
      | _ \<Rightarrow> False)"

text \<open>\<open>finite_value v\<close>: the number \<open>v\<close> is an int or a finite float, neither NaN nor an
  infinity.\<close>

definition finite_value :: "pyval \<Rightarrow> bool" where
  "finite_value v = (case v of I n \<Rightarrow> True | F x \<Rightarrow> is_finite x)"

section \<open>Evaluation and basic facts\<close>

lemma floor_rat_numeral [simp]:
  "\<lfloor>(numeral a :: rat) / numeral b\<rfloor> = numeral a div numeral b"
  using floor_divide_of_int_eq [of "numeral a" "numeral b", where ?'a = rat] by simp

lemma ceiling_rat_numeral [simp]:
  "\<lceil>(numeral a :: rat) / numeral b\<rceil> = - (- numeral a div numeral b)"
  using floor_divide_of_int_eq [of "- numeral a" "numeral b", where ?'a = rat]
  by (simp add: ceiling_def)

lemmas float_eval = rnd64_def ilog2_def pow2_def round_half_even_def bit_length.simps Let_def
  fadd_def fsub_def fneg_def fmul_def fdiv_def is_finite_def fnegative_def
  float_of_int_def as_float_def float_op_def py_add_def py_sub_def py_mul_def py_truediv_def
  py_pow2_def float_pow2_def py_eq_zero_def opE_def num_def lit_def var_def item_def bindE_def py_dict_get_def

lemma bindE_Inr [simp]: "bindE (Inr v) f = f v"
  by (simp add: bindE_def)

lemma bindE_Inl [simp]: "bindE (Inl e) f = Inl e"
  by (simp add: bindE_def)

lemma bindE_eq_Inr: "bindE m f = Inr r \<longleftrightarrow> (\<exists>v. m = Inr v \<and> f v = Inr r)"
  by (cases m) simp_all

lemma push_bit_or_add:
  fixes a b :: int
  assumes "0 \<le> b" "b < 2 ^ n"
  shows "push_bit n a OR b = push_bit n a + b"
proof -
  have tb: "take_bit n b = b"
    using assms by (simp add: take_bit_int_eq_self)
  have "\<not> bit (push_bit n a) m \<or> \<not> bit b m" for m
  proof (cases "m < n")
    case True
    then show ?thesis by (simp add: bit_push_bit_iff)
  next
    case False
    have "bit b m = bit (take_bit n b) m" by (simp add: tb)
    with False show ?thesis by (simp add: bit_take_bit_iff)
  qed
  then show ?thesis by (rule disjunctive_add [symmetric])
qed

lemma py_getitem_in_set: "py_getitem xs i = Inr v \<Longrightarrow> v \<in> set xs"
  by (auto simp: py_getitem_def split: if_splits)

lemma get_short_Inr:
  assumes "get_short data i = Inr v"
  shows "\<exists>hi lo. py_getitem data (i + 1) = Inr hi \<and> py_getitem data i = Inr lo \<and>
           v = push_bit 8 hi + lo"
proof (cases "py_getitem data (i + 1)")
  case (Inl e)
  with assms show ?thesis by (simp add: get_short_def)
next
  case hi: (Inr hi)
  show ?thesis
  proof (cases "py_getitem data i")
    case (Inl e)
    with assms hi show ?thesis by (simp add: get_short_def)
  next
    case (Inr lo)
    with assms hi show ?thesis by (simp add: get_short_def)
  qed
qed

lemma byte_pair_bound:
  fixes hi lo :: int
  assumes "0 \<le> hi" "hi \<le> 255" "0 \<le> lo" "lo \<le> 255"
  shows "0 \<le> push_bit 8 hi + lo \<and> push_bit 8 hi + lo \<le> 65535"
  using assms by (simp add: push_bit_eq_mult)


lemma and_255_mod: "(x::int) AND 255 = x mod 256"
proof -
  have "x AND mask 8 = x mod 2 ^ 8"
    by (simp flip: take_bit_eq_mask add: take_bit_eq_mod)
  moreover have "mask 8 = (255::int)"
    by (simp add: mask_eq_exp_minus_1)
  ultimately show ?thesis by simp
qed

lemma byte_or:
  fixes hi lo :: int
  assumes "0 \<le> lo" "lo \<le> 255"
  shows "push_bit 8 hi OR lo = hi * 256 + lo"
proof -
  have "lo < 2 ^ 8" using assms by simp
  from push_bit_or_add [OF assms(1) this, of hi] show ?thesis
    by (simp add: push_bit_eq_mult)
qed

lemma beInt16_cases:
  assumes "0 \<le> lo" "lo \<le> 255"
  shows "beInt16 hi lo =
    (if hi * 256 + lo > 32767 then hi * 256 + lo - 65536 else hi * 256 + lo)"
  unfolding beInt16_def Let_def byte_or [OF assms] by (rule refl)

lemma sint16_le:
  fixes u :: int
  assumes "0 \<le> u" "u \<le> 65535"
  shows "sint (word_of_int u :: 16 word) = (if u > 32767 then u - 65536 else u)"
proof -
  have s: "sint (word_of_int u :: 16 word) = (u + 32768) mod 65536 - 32768"
    by (simp add: int_word_sint)
  show ?thesis
  proof (cases "u > 32767")
    case True
    have "(u + 32768) mod 65536 = u - 32768"
      by (rule int_mod_pos_eq [where q = 1]) (use True assms in simp_all)
    then show ?thesis using True s by simp
  next
    case False
    have "(u + 32768) mod 65536 = u + 32768"
      by (rule int_mod_pos_eq [where q = 0]) (use False assms in simp_all)
    then show ?thesis using False s by simp
  qed
qed

lemma bytes_of_pos:
  fixes hi lo :: int
  assumes "0 \<le> hi" "hi \<le> 255" "0 \<le> lo" "lo \<le> 255"
  shows "(hi * 256 + lo) div 256 mod 256 = hi" "(hi * 256 + lo) mod 256 = lo"
  using assms by auto

lemma bytes_of_neg:
  fixes hi lo :: int
  assumes "0 \<le> hi" "hi \<le> 255" "0 \<le> lo" "lo \<le> 255"
  shows "(hi * 256 + lo - 65536) div 256 mod 256 = hi" "(hi * 256 + lo - 65536) mod 256 = lo"
proof -
  have d: "(hi * 256 + lo - 65536) div 256 = hi - 256"
    by (rule int_div_pos_eq [where r = lo]) (use assms in simp_all)
  have f: "(hi - 256) mod 256 = hi"
    by (rule int_mod_pos_eq [where q = "- 1"]) (use assms in simp_all)
  show "(hi * 256 + lo - 65536) div 256 mod 256 = hi"
    unfolding d by (fact f)
  show "(hi * 256 + lo - 65536) mod 256 = lo"
    by (rule int_mod_pos_eq [where q = "hi - 256"]) (use assms in simp_all)
qed


lemma u20_sum:
  assumes "byte lsb" "byte xlsb"
  shows "u20FromTriplet msb lsb xlsb = msb * 4096 + lsb * 16 + xlsb div 16"
proof -
  from assms have b: "0 \<le> lsb" "lsb \<le> 255" "0 \<le> xlsb" "xlsb \<le> 255"
    by (simp_all add: byte_def)
  have x: "0 \<le> drop_bit 4 xlsb" "drop_bit 4 xlsb < 2 ^ 4"
    using b by (simp_all add: drop_bit_eq_div)
  have low: "push_bit 4 lsb OR drop_bit 4 xlsb = lsb * 16 + xlsb div 16"
    using push_bit_or_add [OF x, of lsb] by (simp add: push_bit_eq_mult drop_bit_eq_div)
  have l: "0 \<le> lsb * 16 + xlsb div 16" "lsb * 16 + xlsb div 16 < 2 ^ 12"
    using b by simp_all
  have "u20FromTriplet msb lsb xlsb = push_bit 12 msb OR (push_bit 4 lsb OR drop_bit 4 xlsb)"
    by (simp add: u20FromTriplet_def or.assoc)
  also have "\<dots> = push_bit 12 msb OR (lsb * 16 + xlsb div 16)"
    by (simp only: low)
  also have "\<dots> = push_bit 12 msb + (lsb * 16 + xlsb div 16)"
    using l by (rule push_bit_or_add)
  finally show ?thesis by (simp add: push_bit_eq_mult)
qed

lemma u20_div:
  assumes "byte lsb" "byte xlsb"
  shows "u20FromTriplet msb lsb xlsb = (msb * 65536 + lsb * 256 + xlsb) div 16"
proof -
  have "(msb * 65536 + lsb * 256 + xlsb) div 16 = msb * 4096 + lsb * 16 + xlsb div 16"
    by simp
  with u20_sum [OF assms] show ?thesis by simp
qed

lemma py_getitem_nth:
  "0 \<le> i \<Longrightarrow> i < int (length xs) \<Longrightarrow> py_getitem xs i = Inr (xs ! nat i)"
  by (simp add: py_getitem_def)

lemma signed_field_value:
  assumes "py_getitem calib hi = Inr h" "py_getitem calib lo = Inr l"
  shows "signed_field calib hi lo = Inr (spec_leInt16 l h)"
  using assms by (simp add: signed_field_def spec_leInt16_def spec_leUint16_def Let_def)

lemma get_ushort_value:
  assumes "py_getitem data (i + 1) = Inr h" "py_getitem data i = Inr l" "byte l"
  shows "get_ushort data i = Inr (spec_leUint16 l h)"
proof -
  from assms(3) have "0 \<le> l" "l < 2 ^ 8" by (simp_all add: byte_def)
  then have "push_bit 8 h OR l = push_bit 8 h + l" by (rule push_bit_or_add)
  with assms(1,2) show ?thesis by (simp add: get_ushort_def spec_leUint16_def)
qed

lemma spec_leUint16_sum:
  assumes "byte lo"
  shows "spec_leUint16 lo hi = 256 * hi + lo"
  using byte_or [of lo hi] assms by (simp add: spec_leUint16_def byte_def)

lemma spec_leUint16_range:
  assumes "byte lo" "byte hi"
  shows "0 \<le> spec_leUint16 lo hi" "spec_leUint16 lo hi \<le> 65535"
  using assms by (simp_all add: spec_leUint16_sum byte_def)

lemma spec_leInt16_range:
  assumes "byte lo" "byte hi"
  shows "- 32768 \<le> spec_leInt16 lo hi" "spec_leInt16 lo hi \<le> 32767"
  using spec_leUint16_range [OF assms] by (simp_all add: spec_leInt16_def)

lemma spec_leInt16_sint:
  assumes "byte lo" "byte hi"
  shows "spec_leInt16 lo hi = sint (word_of_int (spec_leUint16 lo hi) :: 16 word)"
  using sint16_le [OF spec_leUint16_range [OF assms]] by (simp add: spec_leInt16_def)


lemma signed_field_at:
  assumes "length calib = 24" "hi < 24" "lo < 24"
  shows "signed_field calib (int hi) (int lo) = Inr (spec_leInt16 (calib ! lo) (calib ! hi))"
  by (rule signed_field_value) (use assms in \<open>simp_all add: py_getitem_def\<close>)

lemma get_ushort_at:
  assumes "length data = 24" "Suc i < 24" "byte (data ! i)"
  shows "get_ushort data (int i) = Inr (spec_leUint16 (data ! i) (data ! Suc i))"
proof (rule get_ushort_value)
  show "py_getitem data (int i + 1) = Inr (data ! Suc i)"
    using assms(1,2) by (simp add: py_getitem_def nat_add_distrib)
  show "py_getitem data (int i) = Inr (data ! i)"
    using assms(1,2) by (simp add: py_getitem_def)
  show "byte (data ! i)" by (fact assms(3))
qed

lemma parse_calibration_value:
  assumes "length calib = 24" "\<forall>b \<in> set calib. byte b"
  shows "parse_calibration calib = Inr
       [''T1'' \<mapsto> spec_leUint16 (calib ! 0) (calib ! 1),
        ''T2'' \<mapsto> spec_leInt16 (calib ! 2) (calib ! 3),
        ''T3'' \<mapsto> spec_leInt16 (calib ! 4) (calib ! 5),
        ''P1'' \<mapsto> spec_leUint16 (calib ! 6) (calib ! 7),
        ''P2'' \<mapsto> spec_leInt16 (calib ! 8) (calib ! 9),
        ''P3'' \<mapsto> spec_leInt16 (calib ! 10) (calib ! 11),
        ''P4'' \<mapsto> spec_leInt16 (calib ! 12) (calib ! 13),
        ''P5'' \<mapsto> spec_leInt16 (calib ! 14) (calib ! 15),
        ''P6'' \<mapsto> spec_leInt16 (calib ! 16) (calib ! 17),
        ''P7'' \<mapsto> spec_leInt16 (calib ! 18) (calib ! 19),
        ''P8'' \<mapsto> spec_leInt16 (calib ! 20) (calib ! 21),
        ''P9'' \<mapsto> spec_leInt16 (calib ! 22) (calib ! 23)]"
proof -
  have b: "byte (calib ! i)" if "i < 24" for i
    using assms that by simp
  have T1: "get_ushort calib 0 = Inr (spec_leUint16 (calib ! 0) (calib ! 1))"
    using get_ushort_at [OF assms(1), of 0] b by simp
  have T2: "signed_field calib 3 2 = Inr (spec_leInt16 (calib ! 2) (calib ! 3))"
    using signed_field_at [OF assms(1), of 3 2] by simp
  have T3: "signed_field calib 5 4 = Inr (spec_leInt16 (calib ! 4) (calib ! 5))"
    using signed_field_at [OF assms(1), of 5 4] by simp
  have P1: "get_ushort calib 6 = Inr (spec_leUint16 (calib ! 6) (calib ! 7))"
    using get_ushort_at [OF assms(1), of 6] b by simp
  have P2: "signed_field calib 9 8 = Inr (spec_leInt16 (calib ! 8) (calib ! 9))"
    using signed_field_at [OF assms(1), of 9 8] by simp
  have P3: "signed_field calib 11 10 = Inr (spec_leInt16 (calib ! 10) (calib ! 11))"
    using signed_field_at [OF assms(1), of 11 10] by simp
  have P4: "signed_field calib 13 12 = Inr (spec_leInt16 (calib ! 12) (calib ! 13))"
    using signed_field_at [OF assms(1), of 13 12] by simp
  have P5: "signed_field calib 15 14 = Inr (spec_leInt16 (calib ! 14) (calib ! 15))"
    using signed_field_at [OF assms(1), of 15 14] by simp
  have P6: "signed_field calib 17 16 = Inr (spec_leInt16 (calib ! 16) (calib ! 17))"
    using signed_field_at [OF assms(1), of 17 16] by simp
  have P7: "signed_field calib 19 18 = Inr (spec_leInt16 (calib ! 18) (calib ! 19))"
    using signed_field_at [OF assms(1), of 19 18] by simp
  have P8: "signed_field calib 21 20 = Inr (spec_leInt16 (calib ! 20) (calib ! 21))"
    using signed_field_at [OF assms(1), of 21 20] by simp
  have P9: "signed_field calib 23 22 = Inr (spec_leInt16 (calib ! 22) (calib ! 23))"
    using signed_field_at [OF assms(1), of 23 22] by simp
  show ?thesis
    unfolding parse_calibration_def
    by (simp only: T1 T2 T3 P1 P2 P3 P4 P5 P6 P7 P8 P9 bindE_Inr)
qed

lemma radix_less:
  fixes a b a' b' r :: int
  assumes "0 \<le> b" "b < r" "0 \<le> b'" "b' < r"
  shows "a * r + b < a' * r + b' \<longleftrightarrow> a < a' \<or> a = a' \<and> b < b'"
proof (cases "a < a'")
  case True
  then have "a + 1 \<le> a'" by simp
  moreover have "0 \<le> r" using assms by simp
  ultimately have "(a + 1) * r \<le> a' * r" by (rule mult_right_mono)
  then have "a * r + r \<le> a' * r" by (simp add: algebra_simps)
  with assms True show ?thesis by simp
next
  case False
  show ?thesis
  proof (cases "a = a'")
    case True
    then show ?thesis by simp
  next
    case ne: False
    with False have "a' + 1 \<le> a" by simp
    moreover have "0 \<le> r" using assms by simp
    ultimately have "(a' + 1) * r \<le> a * r" by (rule mult_right_mono)
    then have "a' * r + r \<le> a * r" by (simp add: algebra_simps)
    with assms False ne show ?thesis by simp
  qed
qed

section \<open>The helpers \<open>get_short\<close> and \<open>get_ushort\<close>\<close>

text \<open>
  Claim C10. For every list \<open>data\<close> and every index \<open>i\<close>, \<open>get_short(data, i)\<close>, documented
  as reading a signed 16-bit integer, gives what \<open>get_ushort(data, i)\<close> gives (the same
  value, or the same IndexError): it does no two's-complement reinterpretation. On a list
  of bytes its value is in \<open>[0, 65535]\<close>, namely \<open>256 * h + l\<close> for the two bytes read,
  where the inline code of the calibration parser (\<open>signed_field\<close>) on the same two bytes
  subtracts 65536 from a value above 32767: the bytes \<open>0xFF, 0xFF\<close> give 65535 in the
  helper and -1 in the inline code. In the parser of a 24-byte frame every signed
  coefficient (T2, T3, P2 to P9) comes from the inline code and the two unsigned ones
  (T1, P1) from \<open>get_ushort\<close>; \<open>get_short\<close> is not called.
\<close>

theorem get_short_is_get_ushort:
  "get_short data i = get_ushort data i \<and>
   (\<forall>v. get_short data i = Inr v \<longrightarrow> (\<forall>b \<in> set data. 0 \<le> b \<and> b \<le> 255)
        \<longrightarrow> 0 \<le> v \<and> v \<le> 65535) \<and>
   (\<forall>h l. py_getitem data (i + 1) = Inr h \<longrightarrow> py_getitem data i = Inr l \<longrightarrow> byte h \<longrightarrow> byte l
        \<longrightarrow> get_short data i = Inr (256 * h + l) \<and>
            signed_field data (i + 1) i =
              Inr (if 256 * h + l > 32767 then 256 * h + l - 65536 else 256 * h + l)) \<and>
   (length data = 24 \<longrightarrow> (\<forall>b \<in> set data. byte b) \<longrightarrow>
      (\<exists>dig. parse_calibration data = Inr dig \<and>
         Inr (the (dig ''T1'')) = get_ushort data 0 \<and>
         Inr (the (dig ''P1'')) = get_ushort data 6 \<and>
         Inr (the (dig ''T2'')) = signed_field data 3 2 \<and>
         Inr (the (dig ''T3'')) = signed_field data 5 4 \<and>
         Inr (the (dig ''P2'')) = signed_field data 9 8 \<and>
         Inr (the (dig ''P3'')) = signed_field data 11 10 \<and>
         Inr (the (dig ''P4'')) = signed_field data 13 12 \<and>
         Inr (the (dig ''P5'')) = signed_field data 15 14 \<and>
         Inr (the (dig ''P6'')) = signed_field data 17 16 \<and>
         Inr (the (dig ''P7'')) = signed_field data 19 18 \<and>
         Inr (the (dig ''P8'')) = signed_field data 21 20 \<and>
         Inr (the (dig ''P9'')) = signed_field data 23 22))"
proof (intro conjI allI impI)
  show "get_short data i = get_ushort data i"
    by (simp add: get_short_def get_ushort_def)
next
  fix v
  assume r: "get_short data i = Inr v" and b: "\<forall>b \<in> set data. 0 \<le> b \<and> b \<le> 255"
  from get_short_Inr [OF r] obtain hi lo where hi: "py_getitem data (i + 1) = Inr hi"
    and lo: "py_getitem data i = Inr lo" and v: "v = push_bit 8 hi + lo"
    by blast
  have "hi \<in> set data" using hi by (rule py_getitem_in_set)
  with b have h: "0 \<le> hi" "hi \<le> 255" by simp_all
  have "lo \<in> set data" using lo by (rule py_getitem_in_set)
  with b have l: "0 \<le> lo" "lo \<le> 255" by simp_all
  from byte_pair_bound [OF h l] v show "0 \<le> v" and "v \<le> 65535"
    by simp_all
next
  fix h l
  assume g: "py_getitem data (i + 1) = Inr h" "py_getitem data i = Inr l" and b: "byte h" "byte l"
  show "get_short data i = Inr (256 * h + l)"
    using g by (simp add: get_short_def push_bit_eq_mult)
  have "signed_field data (i + 1) i = Inr (spec_leInt16 l h)"
    using g by (rule signed_field_value)
  then show "signed_field data (i + 1) i =
      Inr (if 256 * h + l > 32767 then 256 * h + l - 65536 else 256 * h + l)"
    using b(2) by (simp add: spec_leInt16_def spec_leUint16_sum)
next
  assume l: "length data = 24" and b: "\<forall>b \<in> set data. byte b"
  have bb: "byte (data ! i)" if "i < 24" for i
    using l b that by simp
  have p: "parse_calibration data = Inr
       [''T1'' \<mapsto> spec_leUint16 (data ! 0) (data ! 1),
        ''T2'' \<mapsto> spec_leInt16 (data ! 2) (data ! 3),
        ''T3'' \<mapsto> spec_leInt16 (data ! 4) (data ! 5),
        ''P1'' \<mapsto> spec_leUint16 (data ! 6) (data ! 7),
        ''P2'' \<mapsto> spec_leInt16 (data ! 8) (data ! 9),
        ''P3'' \<mapsto> spec_leInt16 (data ! 10) (data ! 11),
        ''P4'' \<mapsto> spec_leInt16 (data ! 12) (data ! 13),
        ''P5'' \<mapsto> spec_leInt16 (data ! 14) (data ! 15),
        ''P6'' \<mapsto> spec_leInt16 (data ! 16) (data ! 17),
        ''P7'' \<mapsto> spec_leInt16 (data ! 18) (data ! 19),
        ''P8'' \<mapsto> spec_leInt16 (data ! 20) (data ! 21),
        ''P9'' \<mapsto> spec_leInt16 (data ! 22) (data ! 23)]"
    using l b by (rule parse_calibration_value)
  have u: "get_ushort data 0 = Inr (spec_leUint16 (data ! 0) (data ! 1))"
      "get_ushort data 6 = Inr (spec_leUint16 (data ! 6) (data ! 7))"
    using get_ushort_at [OF l, of 0] get_ushort_at [OF l, of 6] bb by simp_all
  have s: "signed_field data 3 2 = Inr (spec_leInt16 (data ! 2) (data ! 3))"
      "signed_field data 5 4 = Inr (spec_leInt16 (data ! 4) (data ! 5))"
      "signed_field data 9 8 = Inr (spec_leInt16 (data ! 8) (data ! 9))"
      "signed_field data 11 10 = Inr (spec_leInt16 (data ! 10) (data ! 11))"
      "signed_field data 13 12 = Inr (spec_leInt16 (data ! 12) (data ! 13))"
      "signed_field data 15 14 = Inr (spec_leInt16 (data ! 14) (data ! 15))"
      "signed_field data 17 16 = Inr (spec_leInt16 (data ! 16) (data ! 17))"
      "signed_field data 19 18 = Inr (spec_leInt16 (data ! 18) (data ! 19))"
      "signed_field data 21 20 = Inr (spec_leInt16 (data ! 20) (data ! 21))"
      "signed_field data 23 22 = Inr (spec_leInt16 (data ! 22) (data ! 23))"
    using signed_field_at [OF l, of 3 2] signed_field_at [OF l, of 5 4]
      signed_field_at [OF l, of 9 8] signed_field_at [OF l, of 11 10]
      signed_field_at [OF l, of 13 12] signed_field_at [OF l, of 15 14]
      signed_field_at [OF l, of 17 16] signed_field_at [OF l, of 19 18]
      signed_field_at [OF l, of 21 20] signed_field_at [OF l, of 23 22]
    by simp_all
  show "\<exists>dig. parse_calibration data = Inr dig \<and>
         Inr (the (dig ''T1'')) = get_ushort data 0 \<and>
         Inr (the (dig ''P1'')) = get_ushort data 6 \<and>
         Inr (the (dig ''T2'')) = signed_field data 3 2 \<and>
         Inr (the (dig ''T3'')) = signed_field data 5 4 \<and>
         Inr (the (dig ''P2'')) = signed_field data 9 8 \<and>
         Inr (the (dig ''P3'')) = signed_field data 11 10 \<and>
         Inr (the (dig ''P4'')) = signed_field data 13 12 \<and>
         Inr (the (dig ''P5'')) = signed_field data 15 14 \<and>
         Inr (the (dig ''P6'')) = signed_field data 17 16 \<and>
         Inr (the (dig ''P7'')) = signed_field data 19 18 \<and>
         Inr (the (dig ''P8'')) = signed_field data 21 20 \<and>
         Inr (the (dig ''P9'')) = signed_field data 23 22"
    unfolding p u s by (intro exI conjI, rule refl) simp_all
qed


theorem get_short_is_get_ushort_witness:
  "get_short [255, 255] 0 = get_ushort [255, 255] 0 \<and>
   get_short [255, 255] 0 = Inr 65535 \<and>
   signed_field [255, 255] 1 0 = Inr (- 1) \<and>
   byte 255"
proof -
  have b: "byte 255" by (simp add: byte_def)
  have g: "py_getitem [255, 255 :: int] (0 + 1) = Inr 255" "py_getitem [255, 255 :: int] 0 = Inr 255"
    by (simp_all add: py_getitem_def)
  note t = get_short_is_get_ushort [of "[255, 255]" 0]
  from t have e: "get_short [255, 255] 0 = get_ushort [255, 255] 0" by (rule conjunct1)
  from t have "\<forall>h l. py_getitem [255, 255] (0 + 1) = Inr h \<longrightarrow> py_getitem [255, 255] 0 = Inr l
      \<longrightarrow> byte h \<longrightarrow> byte l
      \<longrightarrow> get_short [255, 255] 0 = Inr (256 * h + l) \<and>
          signed_field [255, 255] (0 + 1) 0 =
            Inr (if 256 * h + l > 32767 then 256 * h + l - 65536 else 256 * h + l)"
    by blast
  with g b have "get_short [255, 255] 0 = Inr (256 * 255 + 255) \<and>
          signed_field [255, 255] (0 + 1) 0 =
            Inr (if 256 * 255 + 255 > (32767::int) then 256 * 255 + 255 - 65536 else 256 * 255 + 255)"
    by blast
  then have "get_short [255, 255] 0 = Inr 65535 \<and> signed_field [255, 255] 1 0 = Inr (- 1)"
    by simp
  with e b show ?thesis by blast
qed


section \<open>The calibration parser\<close>

text \<open>
  Claim C5. For every 24-byte calibration frame, the parser decodes each coefficient as
  the little-endian 16-bit field at its fixed even byte offset: T1 (offset 0) and P1
  (offset 6) stay unsigned, in \<open>[0, 65535]\<close>; T2, T3 and P2 to P9 are the two's-complement
  signed value of their field, in \<open>[-32768, 32767]\<close> (a value above 32767 has 65536
  subtracted). The fields are stated with the codec of the specification; for every
  offset the unsigned field is \<open>256 * hi + lo\<close> and the signed one is what \<open>sint\<close> reads
  from the 16-bit word.
\<close>

theorem parse_calibration_fields:
  assumes "length calib = 24" "\<forall>b \<in> set calib. byte b"
  shows "parse_calibration calib = Inr
       [''T1'' \<mapsto> spec_leUint16 (calib ! 0) (calib ! 1),
        ''T2'' \<mapsto> spec_leInt16 (calib ! 2) (calib ! 3),
        ''T3'' \<mapsto> spec_leInt16 (calib ! 4) (calib ! 5),
        ''P1'' \<mapsto> spec_leUint16 (calib ! 6) (calib ! 7),
        ''P2'' \<mapsto> spec_leInt16 (calib ! 8) (calib ! 9),
        ''P3'' \<mapsto> spec_leInt16 (calib ! 10) (calib ! 11),
        ''P4'' \<mapsto> spec_leInt16 (calib ! 12) (calib ! 13),
        ''P5'' \<mapsto> spec_leInt16 (calib ! 14) (calib ! 15),
        ''P6'' \<mapsto> spec_leInt16 (calib ! 16) (calib ! 17),
        ''P7'' \<mapsto> spec_leInt16 (calib ! 18) (calib ! 19),
        ''P8'' \<mapsto> spec_leInt16 (calib ! 20) (calib ! 21),
        ''P9'' \<mapsto> spec_leInt16 (calib ! 22) (calib ! 23)] \<and>
     (\<forall>k < 12.
        spec_leUint16 (calib ! (2 * k)) (calib ! (2 * k + 1))
          = 256 * calib ! (2 * k + 1) + calib ! (2 * k) \<and>
        0 \<le> spec_leUint16 (calib ! (2 * k)) (calib ! (2 * k + 1)) \<and>
        spec_leUint16 (calib ! (2 * k)) (calib ! (2 * k + 1)) \<le> 65535 \<and>
        - 32768 \<le> spec_leInt16 (calib ! (2 * k)) (calib ! (2 * k + 1)) \<and>
        spec_leInt16 (calib ! (2 * k)) (calib ! (2 * k + 1)) \<le> 32767 \<and>
        spec_leInt16 (calib ! (2 * k)) (calib ! (2 * k + 1))
          = sint (word_of_int (spec_leUint16 (calib ! (2 * k)) (calib ! (2 * k + 1))) :: 16 word))"
proof (intro conjI allI impI)
  show "parse_calibration calib = Inr
       [''T1'' \<mapsto> spec_leUint16 (calib ! 0) (calib ! 1),
        ''T2'' \<mapsto> spec_leInt16 (calib ! 2) (calib ! 3),
        ''T3'' \<mapsto> spec_leInt16 (calib ! 4) (calib ! 5),
        ''P1'' \<mapsto> spec_leUint16 (calib ! 6) (calib ! 7),
        ''P2'' \<mapsto> spec_leInt16 (calib ! 8) (calib ! 9),
        ''P3'' \<mapsto> spec_leInt16 (calib ! 10) (calib ! 11),
        ''P4'' \<mapsto> spec_leInt16 (calib ! 12) (calib ! 13),
        ''P5'' \<mapsto> spec_leInt16 (calib ! 14) (calib ! 15),
        ''P6'' \<mapsto> spec_leInt16 (calib ! 16) (calib ! 17),
        ''P7'' \<mapsto> spec_leInt16 (calib ! 18) (calib ! 19),
        ''P8'' \<mapsto> spec_leInt16 (calib ! 20) (calib ! 21),
        ''P9'' \<mapsto> spec_leInt16 (calib ! 22) (calib ! 23)]"
    using assms by (rule parse_calibration_value)
next
  fix k :: nat
  assume k: "k < 12"
  have lo: "byte (calib ! (2 * k))" and hi: "byte (calib ! (2 * k + 1))"
    using assms k by simp_all
  show "spec_leUint16 (calib ! (2 * k)) (calib ! (2 * k + 1))
          = 256 * calib ! (2 * k + 1) + calib ! (2 * k)"
    using lo by (rule spec_leUint16_sum)
  show "0 \<le> spec_leUint16 (calib ! (2 * k)) (calib ! (2 * k + 1))"
    using lo hi by (rule spec_leUint16_range)
  show "spec_leUint16 (calib ! (2 * k)) (calib ! (2 * k + 1)) \<le> 65535"
    using lo hi by (rule spec_leUint16_range)
  show "- 32768 \<le> spec_leInt16 (calib ! (2 * k)) (calib ! (2 * k + 1))"
    using lo hi by (rule spec_leInt16_range)
  show "spec_leInt16 (calib ! (2 * k)) (calib ! (2 * k + 1)) \<le> 32767"
    using lo hi by (rule spec_leInt16_range)
  show "spec_leInt16 (calib ! (2 * k)) (calib ! (2 * k + 1))
          = sint (word_of_int (spec_leUint16 (calib ! (2 * k)) (calib ! (2 * k + 1))) :: 16 word)"
    using lo hi by (rule spec_leInt16_sint)
qed


theorem parse_calibration_fields_witness:
  "length reference_frame = 24 \<and> parse_calibration reference_frame = Inr reference_dig"
proof -
  have l: "length reference_frame = 24" by (simp add: reference_frame_def)
  have b: "\<forall>b \<in> set reference_frame. byte b" by (simp add: reference_frame_def byte_def)
  from parse_calibration_fields [OF l b]
  have "parse_calibration reference_frame = Inr reference_dig"
    by (simp add: reference_frame_def reference_dig_def spec_leInt16_def
        spec_leUint16_sum byte_def)
  with l show ?thesis by simp
qed


section \<open>Big-endian signed 16-bit values\<close>

text \<open>
  Claim C6. For all bytes \<open>hi\<close>, \<open>lo\<close>, the value \<open>beInt16(hi, lo)\<close> round-trips: its two
  bytes, \<open>(v >> 8) & 0xFF\<close> and \<open>v & 0xFF\<close>, are \<open>hi\<close> and \<open>lo\<close> again; it is negative
  exactly when the unsigned combination \<open>(hi << 8) | lo\<close> is at least \<open>0x8000\<close> and
  non-negative otherwise; and it is the two's-complement reading of the 16-bit word.
\<close>

theorem beInt16_roundtrip:
  assumes "byte hi" "byte lo"
  shows "drop_bit 8 (beInt16 hi lo) AND 255 = hi \<and>
         beInt16 hi lo AND 255 = lo \<and>
         (beInt16 hi lo < 0 \<longleftrightarrow> push_bit 8 hi OR lo \<ge> 0x8000) \<and>
         (0 \<le> beInt16 hi lo \<longleftrightarrow> push_bit 8 hi OR lo < 0x8000) \<and>
         beInt16 hi lo = sint (word_of_int (push_bit 8 hi OR lo) :: 16 word)"
proof -
  from assms have b: "0 \<le> hi" "hi \<le> 255" "0 \<le> lo" "lo \<le> 255"
    by (simp_all add: byte_def)
  define u where "u = hi * 256 + lo"
  have u: "push_bit 8 hi OR lo = u"
    unfolding u_def using b(3,4) by (rule byte_or)
  have r: "0 \<le> u" "u \<le> 65535" using b by (simp_all add: u_def)
  have v: "beInt16 hi lo = (if u > 32767 then u - 65536 else u)"
    unfolding u_def using b(3,4) by (rule beInt16_cases)
  have hi: "drop_bit 8 (beInt16 hi lo) AND 255 = hi"
    using bytes_of_pos(1) [OF b] bytes_of_neg(1) [OF b]
    by (simp add: v u_def and_255_mod drop_bit_eq_div)
  have lo: "beInt16 hi lo AND 255 = lo"
    using bytes_of_pos(2) [OF b] bytes_of_neg(2) [OF b]
    by (simp add: v u_def and_255_mod)
  have neg: "beInt16 hi lo < 0 \<longleftrightarrow> u \<ge> 0x8000"
    using r by (simp add: v)
  have pos: "0 \<le> beInt16 hi lo \<longleftrightarrow> u < 0x8000"
    using r by (simp add: v)
  have s: "beInt16 hi lo = sint (word_of_int u :: 16 word)"
    using sint16_le [OF r] by (simp add: v)
  from hi lo neg pos s show ?thesis
    unfolding u by blast
qed

theorem beInt16_roundtrip_witness:
  "byte 0xFF \<and> byte 0x38 \<and> beInt16 0xFF 0x38 = - 200 \<and>
   drop_bit 8 (- 200 :: int) AND 255 = 0xFF \<and> (- 200 :: int) AND 255 = 0x38"
proof -
  have b: "byte 0xFF" "byte 0x38" by (simp_all add: byte_def)
  have v: "beInt16 0xFF 0x38 = - 200"
    using beInt16_cases [of "0x38" "0xFF"] by simp
  from beInt16_roundtrip [OF b] show ?thesis
    unfolding v using b by simp
qed

section \<open>The 20-bit ADC codes\<close>

text \<open>
  Claim C7. For all bytes \<open>msb\<close>, \<open>lsb\<close>, \<open>xlsb\<close>, the code
  \<open>(msb << 12) | (lsb << 4) | (xlsb >> 4)\<close> is non-negative and below \<open>2^20\<close>; it is the
  24-bit big-endian field shifted right by four; it is non-decreasing in each argument and
  in the 24-bit field; and it is strictly increasing in the encoded 20-bit value, that is
  in \<open>(msb, lsb, xlsb >> 4)\<close> ordered lexicographically.
\<close>

theorem u20FromTriplet_bound_monotonic:
  assumes "byte msb" "byte lsb" "byte xlsb" "byte msb'" "byte lsb'" "byte xlsb'"
  shows "0 \<le> u20FromTriplet msb lsb xlsb \<and> u20FromTriplet msb lsb xlsb < 2 ^ 20 \<and>
     u20FromTriplet msb lsb xlsb = (msb * 65536 + lsb * 256 + xlsb) div 16 \<and>
     (msb \<le> msb' \<longrightarrow> u20FromTriplet msb lsb xlsb \<le> u20FromTriplet msb' lsb xlsb) \<and>
     (lsb \<le> lsb' \<longrightarrow> u20FromTriplet msb lsb xlsb \<le> u20FromTriplet msb lsb' xlsb) \<and>
     (xlsb \<le> xlsb' \<longrightarrow> u20FromTriplet msb lsb xlsb \<le> u20FromTriplet msb lsb xlsb') \<and>
     (msb * 65536 + lsb * 256 + xlsb \<le> msb' * 65536 + lsb' * 256 + xlsb'
        \<longrightarrow> u20FromTriplet msb lsb xlsb \<le> u20FromTriplet msb' lsb' xlsb') \<and>
     (u20FromTriplet msb lsb xlsb < u20FromTriplet msb' lsb' xlsb' \<longleftrightarrow>
        msb < msb' \<or> msb = msb' \<and> (lsb < lsb' \<or> lsb = lsb' \<and> xlsb div 16 < xlsb' div 16))"
proof -
  from assms have b: "0 \<le> msb" "msb \<le> 255" "0 \<le> lsb" "lsb \<le> 255" "0 \<le> xlsb" "xlsb \<le> 255"
    "0 \<le> msb'" "msb' \<le> 255" "0 \<le> lsb'" "lsb' \<le> 255" "0 \<le> xlsb'" "xlsb' \<le> 255"
    by (simp_all add: byte_def)
  have x: "0 \<le> xlsb div 16" "xlsb div 16 < 16" "0 \<le> xlsb' div 16" "xlsb' div 16 < 16"
    using b by simp_all
  have low: "0 \<le> lsb * 16 + xlsb div 16" "lsb * 16 + xlsb div 16 < 4096"
      "0 \<le> lsb' * 16 + xlsb' div 16" "lsb' * 16 + xlsb' div 16 < 4096"
    using b x by simp_all
  note s = u20_sum [OF assms(2,3), of msb] u20_sum [OF assms(2,3), of msb']
    u20_sum [OF assms(5,3), of msb] u20_sum [OF assms(2,6), of msb]
    u20_sum [OF assms(5,6), of msb']
  note d = u20_div [OF assms(2,3), of msb] u20_div [OF assms(5,6), of msb']
  have c1: "0 \<le> u20FromTriplet msb lsb xlsb" "u20FromTriplet msb lsb xlsb < 2 ^ 20"
    using b x by (simp_all add: s)
  have c3: "msb \<le> msb' \<longrightarrow> u20FromTriplet msb lsb xlsb \<le> u20FromTriplet msb' lsb xlsb"
    by (simp add: s)
  have c4: "lsb \<le> lsb' \<longrightarrow> u20FromTriplet msb lsb xlsb \<le> u20FromTriplet msb lsb' xlsb"
    by (simp add: s)
  have c5: "xlsb \<le> xlsb' \<longrightarrow> u20FromTriplet msb lsb xlsb \<le> u20FromTriplet msb lsb xlsb'"
    by (simp add: s zdiv_mono1)
  have c6: "msb * 65536 + lsb * 256 + xlsb \<le> msb' * 65536 + lsb' * 256 + xlsb'
        \<longrightarrow> u20FromTriplet msb lsb xlsb \<le> u20FromTriplet msb' lsb' xlsb'"
    unfolding d by (simp add: zdiv_mono1)
  have "u20FromTriplet msb lsb xlsb < u20FromTriplet msb' lsb' xlsb' \<longleftrightarrow>
      msb * 4096 + (lsb * 16 + xlsb div 16) < msb' * 4096 + (lsb' * 16 + xlsb' div 16)"
    by (simp add: s add.assoc)
  also have "\<dots> \<longleftrightarrow> msb < msb' \<or> msb = msb' \<and> lsb * 16 + xlsb div 16 < lsb' * 16 + xlsb' div 16"
    using low by (rule radix_less)
  also have "lsb * 16 + xlsb div 16 < lsb' * 16 + xlsb' div 16 \<longleftrightarrow>
      lsb < lsb' \<or> lsb = lsb' \<and> xlsb div 16 < xlsb' div 16"
    using x by (rule radix_less)
  finally have c7: "u20FromTriplet msb lsb xlsb < u20FromTriplet msb' lsb' xlsb' \<longleftrightarrow>
        msb < msb' \<or> msb = msb' \<and> (lsb < lsb' \<or> lsb = lsb' \<and> xlsb div 16 < xlsb' div 16)" .
  from c1 d(1) c3 c4 c5 c6 c7 show ?thesis by blast
qed

theorem u20FromTriplet_bound_monotonic_witness:
  "byte 0x65 \<and> byte 0x5A \<and> byte 0xC0 \<and> byte 0x7E \<and> byte 0xED \<and> byte 0x00 \<and>
   u20FromTriplet 0x65 0x5A 0xC0 = 415148 \<and> u20FromTriplet 0x7E 0xED 0x00 = 519888 \<and>
   u20FromTriplet 0x65 0x5A 0xC0 < u20FromTriplet 0x7E 0xED 0x00"
proof -
  have b: "byte 0x65" "byte 0x5A" "byte 0xC0" "byte 0x7E" "byte 0xED" "byte 0x00"
    by (simp_all add: byte_def)
  from u20FromTriplet_bound_monotonic [OF b]
  have "u20FromTriplet 0x65 0x5A 0xC0 = 415148 \<and>
        u20FromTriplet 0x65 0x5A 0xC0 < u20FromTriplet 0x7E 0xED 0x00"
    by simp
  moreover from u20FromTriplet_bound_monotonic [OF b(4,5,6) b(1,2,3)]
  have "u20FromTriplet 0x7E 0xED 0x00 = 519888" by simp
  ultimately show ?thesis using b by simp
qed

section \<open>The magnitude\<close>

text \<open>
  Claim C9. The magnitude \<open>(x**2 + y**2 + z**2) ** 0.5\<close> is the same for every order of
  the three axis values. The squares and their sum are computed on Python ints, exactly,
  so the float power is applied to one and the same int whatever the order; this holds for
  every behaviour of the library's \<open>pow\<close>, and for all ints, the signed 16-bit ones among
  them.
\<close>

theorem magnitude_permutation_invariant:
  "magnitude libm_pow py_pow x y z = magnitude libm_pow py_pow y x z \<and>
   magnitude libm_pow py_pow x y z = magnitude libm_pow py_pow x z y \<and>
   magnitude libm_pow py_pow x y z = magnitude libm_pow py_pow z y x \<and>
   magnitude libm_pow py_pow x y z = magnitude libm_pow py_pow y z x \<and>
   magnitude libm_pow py_pow x y z = magnitude libm_pow py_pow z x y"
  by (simp add: magnitude_def opE_def py_pow2_def py_add_def ac_simps)

lemma transact_log: "snd (snd (transact bus t w)) = snd w @ [t]"
  by (simp add: transact_def split: prod.split)


lemma read_data_3dh_log:
  "snd (snd (read_data_3dh bus w)) = snd w @ [Read_i2c_block_data 0x0C 0x4E 7]"
proof -
  obtain r w' where t: "transact bus (Read_i2c_block_data 0x0C 0x4E 7) w = (r, w')"
    by (cases "transact bus (Read_i2c_block_data 0x0C 0x4E 7) w")
  from transact_log [of bus "Read_i2c_block_data 0x0C 0x4E 7" w] t
  have l: "snd w' = snd w @ [Read_i2c_block_data 0x0C 0x4E 7]" by simp
  show ?thesis
    by (cases r) (simp_all add: read_data_3dh_def CMD_RM_def AXIS_MASK_def DEVICE_ADDR_3dh_def t l)
qed


lemma beInt16_sint:
  assumes "byte hi" "byte lo"
  shows "beInt16 hi lo = sint (word_of_int (256 * hi + lo) :: 16 word)"
proof -
  from assms have b: "0 \<le> hi" "hi \<le> 255" "0 \<le> lo" "lo \<le> 255" by (simp_all add: byte_def)
  then have r: "0 \<le> 256 * hi + lo" "256 * hi + lo \<le> 65535" by simp_all
  show ?thesis
    using beInt16_cases [OF b(3,4), of hi] sint16_le [OF r] by (simp add: mult.commute)
qed

lemma read_data_3dh_value:
  assumes "bus s (Read_i2c_block_data 0x0C 0x4E 7) = (Inr [st, xh, xl, yh, yl, zh, zl], s')"
  shows "read_data_3dh bus (s, tr) =
    (Inr (Some (beInt16 xh xl, beInt16 yh yl, beInt16 zh zl)),
     (s', tr @ [Read_i2c_block_data 0x0C 0x4E 7]))"
  using assms
  by (simp add: read_data_3dh_def transact_def decode_axes_def py_getitem_def
      CMD_RM_def AXIS_MASK_def DEVICE_ADDR_3dh_def)

lemma start_measurement_log:
  "snd (snd (start_measurement bus w)) = snd w @ [Write_byte 0x0C 0x3E]"
proof -
  obtain r w' where t: "transact bus (Write_byte 0x0C 0x3E) w = (r, w')"
    by (cases "transact bus (Write_byte 0x0C 0x3E) w")
  from transact_log [of bus "Write_byte 0x0C 0x3E" w] t
  have l: "snd w' = snd w @ [Write_byte 0x0C 0x3E]" by simp
  show ?thesis
    by (cases r) (simp_all add: start_measurement_def CMD_SM_def AXIS_MASK_def DEVICE_ADDR_3dh_def t l)
qed

section \<open>The magnetometer read\<close>

text \<open>
  Claim C8. The magnetometer read issues one transaction, a block read of exactly 7 bytes
  (1 status byte and 2 bytes for each of the three axes enabled in the mask) at the device
  address, with the command byte \<open>0x4E\<close>: the read-measurement opcode \<open>0x40\<close> or-ed with
  the axis mask \<open>0x0E\<close>, the mask that \<open>start_measurement\<close> sends with its own opcode. From
  the frame it decodes the three axis values as big-endian signed 16-bit integers at the
  byte offsets 1-2, 3-4 and 5-6; the status byte at offset 0 is not looked at.
\<close>

theorem read_data_3dh_block_read:
  "snd (snd (read_data_3dh bus (s, tr))) = tr @ [Read_i2c_block_data DEVICE_ADDR_3dh 0x4E 7] \<and>
   snd (snd (start_measurement bus (s, tr))) = tr @ [Write_byte DEVICE_ADDR_3dh 0x3E] \<and>
   CMD_RM OR AXIS_MASK = 0x4E \<and> CMD_SM OR AXIS_MASK = 0x3E \<and>
   CMD_RM = 0x40 \<and> AXIS_MASK = 0x0E \<and>
   0x4E AND 0x0F = AXIS_MASK \<and> 0x3E AND 0x0F = AXIS_MASK \<and>
   (7 :: nat) = 1 + 2 * length (filter (bit AXIS_MASK) [0..<4]) \<and>
   (bus s (Read_i2c_block_data DEVICE_ADDR_3dh 0x4E 7) = (Inr [st, xh, xl, yh, yl, zh, zl], s')
      \<longrightarrow> read_data_3dh bus (s, tr) =
            (Inr (Some (beInt16 xh xl, beInt16 yh yl, beInt16 zh zl)),
             (s', tr @ [Read_i2c_block_data DEVICE_ADDR_3dh 0x4E 7])) \<and>
          (byte xh \<and> byte xl \<longrightarrow> beInt16 xh xl = sint (word_of_int (256 * xh + xl) :: 16 word)) \<and>
          (byte yh \<and> byte yl \<longrightarrow> beInt16 yh yl = sint (word_of_int (256 * yh + yl) :: 16 word)) \<and>
          (byte zh \<and> byte zl \<longrightarrow> beInt16 zh zl = sint (word_of_int (256 * zh + zl) :: 16 word)))"
proof (intro conjI impI)
  show "snd (snd (read_data_3dh bus (s, tr))) = tr @ [Read_i2c_block_data DEVICE_ADDR_3dh 0x4E 7]"
    using read_data_3dh_log [of bus "(s, tr)"] by (simp add: DEVICE_ADDR_3dh_def)
  show "snd (snd (start_measurement bus (s, tr))) = tr @ [Write_byte DEVICE_ADDR_3dh 0x3E]"
    using start_measurement_log [of bus "(s, tr)"] by (simp add: DEVICE_ADDR_3dh_def)
  show "CMD_RM OR AXIS_MASK = 0x4E" by (simp add: CMD_RM_def AXIS_MASK_def)
  show "CMD_SM OR AXIS_MASK = 0x3E" by (simp add: CMD_SM_def AXIS_MASK_def)
  show "CMD_RM = 0x40" by (simp add: CMD_RM_def)
  show "AXIS_MASK = 0x0E" by (simp add: AXIS_MASK_def)
  show "0x4E AND 0x0F = AXIS_MASK" by (simp add: AXIS_MASK_def)
  show "0x3E AND 0x0F = AXIS_MASK" by (simp add: AXIS_MASK_def)
  show "(7 :: nat) = 1 + 2 * length (filter (bit AXIS_MASK) [0..<4])"
    by (simp add: AXIS_MASK_def upt_rec)
next
  assume "bus s (Read_i2c_block_data DEVICE_ADDR_3dh 0x4E 7) = (Inr [st, xh, xl, yh, yl, zh, zl], s')"
  then have "bus s (Read_i2c_block_data 0x0C 0x4E 7) = (Inr [st, xh, xl, yh, yl, zh, zl], s')"
    by (simp add: DEVICE_ADDR_3dh_def)
  then have "read_data_3dh bus (s, tr) =
    (Inr (Some (beInt16 xh xl, beInt16 yh yl, beInt16 zh zl)),
     (s', tr @ [Read_i2c_block_data 0x0C 0x4E 7]))"
    by (rule read_data_3dh_value)
  then show "read_data_3dh bus (s, tr) =
            (Inr (Some (beInt16 xh xl, beInt16 yh yl, beInt16 zh zl)),
             (s', tr @ [Read_i2c_block_data DEVICE_ADDR_3dh 0x4E 7]))"
    by (simp add: DEVICE_ADDR_3dh_def)
next
  assume "byte xh \<and> byte xl"
  then show "beInt16 xh xl = sint (word_of_int (256 * xh + xl) :: 16 word)"
    by (simp add: beInt16_sint)
next
  assume "byte yh \<and> byte yl"
  then show "beInt16 yh yl = sint (word_of_int (256 * yh + yl) :: 16 word)"
    by (simp add: beInt16_sint)
next
  assume "byte zh \<and> byte zl"
  then show "beInt16 zh zl = sint (word_of_int (256 * zh + zl) :: 16 word)"
    by (simp add: beInt16_sint)
qed

theorem read_data_3dh_block_read_witness:
  "frame_bus [0, 0xFF, 0x38, 0x00, 0x64, 0x80, 0x00] () (Read_i2c_block_data DEVICE_ADDR_3dh 0x4E 7)
     = (Inr [0, 0xFF, 0x38, 0x00, 0x64, 0x80, 0x00], ()) \<and>
   read_data_3dh (frame_bus [0, 0xFF, 0x38, 0x00, 0x64, 0x80, 0x00]) ((), [])
     = (Inr (Some (- 200, 100, - 32768)), ((), [Read_i2c_block_data DEVICE_ADDR_3dh 0x4E 7]))"
proof -
  have f: "frame_bus [0, 0xFF, 0x38, 0x00, 0x64, 0x80, 0x00] ()
      (Read_i2c_block_data DEVICE_ADDR_3dh 0x4E 7)
     = (Inr [0, 0xFF, 0x38, 0x00, 0x64, 0x80, 0x00], ())"
    by (simp add: frame_bus_def)
  have v: "beInt16 0xFF 0x38 = - 200" "beInt16 0x00 0x64 = 100" "beInt16 0x80 0x00 = - 32768"
    using beInt16_cases [of "0x38" "0xFF"] beInt16_cases [of "0x64" "0x00"]
      beInt16_cases [of "0x00" "0x80"] by simp_all
  from read_data_3dh_block_read
    [of "frame_bus [0, 0xFF, 0x38, 0x00, 0x64, 0x80, 0x00]" "()" "[]" 0 "0xFF" "0x38" "0x00" "0x64"
      "0x80" "0x00" "()"] f
  have "read_data_3dh (frame_bus [0, 0xFF, 0x38, 0x00, 0x64, 0x80, 0x00]) ((), [])
     = (Inr (Some (beInt16 0xFF 0x38, beInt16 0x00 0x64, beInt16 0x80 0x00)),
        ((), [] @ [Read_i2c_block_data DEVICE_ADDR_3dh 0x4E 7]))"
    by blast
  with f show ?thesis by (simp add: v)
qed











section \<open>A transport whose block reads all fail\<close>










section \<open>Reading before initialization\<close>




section \<open>The reference example\<close>

lemma libm_rn_reference: "libm_rn (4989 / 8192) 2 = Fin (24890121 / 67108864)"
  by (simp add: libm_rn_def float_eval)

lemma compensate_reference:
  assumes "libm_pow (4989 / 8192) 2 = Fin (24890121 / 67108864)"
  shows "compensate libm_pow reference_dig 519888 415148 =
     Inr (F (Fin (215456844831 / 8589934592)), F (Fin (8853554975492759 / 8796093022208)))"
  using assms
  by (simp add: compensate_def read_data_temperature_def read_data_pressure_setup_def
      read_data_pressure_def reference_dig_def float_eval)

text \<open>
  Claim C1, as amended. For the reference calibration set and the raw codes
  \<open>adc_t = 519888\<close>, \<open>adc_p = 415148\<close>, the compensation (the temperature steps, then the
  pressure steps consuming \<open>t_fine\<close>) returns the floats
  \<open>215456844831 / 2^33 = 25.0824779...\<close> and \<open>8853554975492759 / 2^43 = 1006.5326677...\<close>:
  the temperature is within 0.1 % of 25.08 degrees and the pressure within 0.1 % of
  1006.53 hPa, the 100653 Pa of the manufacturer's example. The one operand of \<open>** 2\<close> is
  \<open>4989 / 8192\<close>, whose square \<open>24890121 / 2^26\<close> is a float; the statement holds for every
  C library whose \<open>pow\<close> returns that square.
\<close>

theorem reference_example:
  assumes "libm_pow (4989 / 8192) 2 = Fin (24890121 / 67108864)"
  shows "compensate libm_pow reference_dig 519888 415148 =
       Inr (F (Fin (215456844831 / 8589934592)), F (Fin (8853554975492759 / 8796093022208))) \<and>
     approx (F (Fin (215456844831 / 8589934592))) (2508 / 100) (1 / 1000) \<and>
     approx (F (Fin (8853554975492759 / 8796093022208))) (100653 / 100) (1 / 1000)"
  using compensate_reference [of libm_pow, OF assms] by (simp add: approx_def)

theorem reference_example_witness:
  "libm_rn (4989 / 8192) 2 = Fin (24890121 / 67108864) \<and>
   compensate libm_rn reference_dig 519888 415148 =
     Inr (F (Fin (215456844831 / 8589934592)), F (Fin (8853554975492759 / 8796093022208)))"
  using reference_example [of libm_rn, OF libm_rn_reference] libm_rn_reference by blast

text \<open>
  The claim as stated fails: the pressure of the reference example is not within 0.1 % of
  1000 hPa (it is 0.65 % above).
\<close>

theorem reference_pressure_counterexample:
  "\<not> (case compensate libm_rn reference_dig 519888 415148 of
        Inr (temp_c, hpa) \<Rightarrow> approx temp_c (2508 / 100) (1 / 1000) \<and> approx hpa 1000 (1 / 1000)
      | Inl e \<Rightarrow> False)"
  by (simp add: compensate_reference [of libm_rn, OF libm_rn_reference] approx_def)

section \<open>The guard on \<open>var1\<close>\<close>

subsection \<open>The rounding function: finite results are below \<open>2^1024\<close>\<close>

lemma bit_length_spec:
  "1 \<le> n \<Longrightarrow> \<exists>k::nat. bit_length n = int k + 1 \<and> 2 ^ k \<le> n \<and> n < 2 ^ (k + 1)"
proof (induction n rule: bit_length.induct)
  case (1 n)
  show ?case
  proof (cases "n = 1")
    case True
    have "bit_length 1 = 1" by (simp add: bit_length.simps)
    with True show ?thesis by (intro exI [of _ 0]) simp
  next
    case False
    with "1.prems" have n: "2 \<le> n" by simp
    then have m: "1 \<le> n div 2" by simp
    from n have "\<not> n \<le> 0" by simp
    from "1.IH" [OF this m] obtain k :: nat where
      k: "bit_length (n div 2) = int k + 1" "2 ^ k \<le> n div 2" "n div 2 < 2 ^ (k + 1)"
      by blast
    have b: "bit_length n = 1 + bit_length (n div 2)"
      using n by (subst bit_length.simps) simp
    have lo: "2 ^ (k + 1) \<le> n"
    proof -
      have "(2::int) ^ (k + 1) = 2 * 2 ^ k" by simp
      also have "\<dots> \<le> 2 * (n div 2)" using k(2) by simp
      also have "\<dots> \<le> n" by simp
      finally show ?thesis .
    qed
    have hi: "n < 2 ^ (k + 1 + 1)"
    proof -
      have "n < 2 * (n div 2 + 1)" by simp
      also have "\<dots> \<le> 2 * 2 ^ (k + 1)" using k(3) by simp
      also have "\<dots> = 2 ^ (k + 1 + 1)" by simp
      finally show ?thesis .
    qed
    from b k(1) lo hi show ?thesis by (intro exI [of _ "k + 1"]) simp
  qed
qed

lemma pow2_powi: "pow2 e = 2 powi e"
  by (simp add: pow2_def power_int_def power_one_over)

lemma pow2_pos: "0 < pow2 e"
  by (simp add: pow2_powi)

lemma pow2_mono: "a \<le> b \<Longrightarrow> pow2 a \<le> pow2 b"
  by (simp add: pow2_powi power_int_increasing)

lemma pow2_strict_mono: "a < b \<Longrightarrow> pow2 a < pow2 b"
  by (simp add: pow2_powi power_int_strict_increasing)

lemma pow2_nat: "pow2 (int k) = 2 ^ k"
  by (simp add: pow2_powi)

lemma pow2_neg_nat: "pow2 (- int k) = 1 / 2 ^ k"
  by (simp add: pow2_powi power_int_minus inverse_eq_divide)

lemma pow2_Suc: "pow2 (e + 1) = 2 * pow2 e"
  by (simp add: pow2_powi power_int_add)


lemma ilog2_spec:
  assumes "0 < x"
  shows "pow2 (ilog2 x) \<le> x \<and> x < pow2 (ilog2 x + 1)"
proof (cases "1 \<le> x")
  case True
  then have "1 \<le> \<lfloor>x\<rfloor>" by simp
  from bit_length_spec [OF this] obtain k :: nat where
    k: "bit_length \<lfloor>x\<rfloor> = int k + 1" "2 ^ k \<le> \<lfloor>x\<rfloor>" "\<lfloor>x\<rfloor> < 2 ^ (k + 1)"
    by blast
  from True k(1) have e: "ilog2 x = int k" by (simp add: ilog2_def)
  have "(2::rat) ^ k = of_int (2 ^ k)" by simp
  also have "\<dots> \<le> of_int \<lfloor>x\<rfloor>" using k(2) by (simp only: of_int_le_iff)
  also have "\<dots> \<le> x" by simp
  finally have lo: "2 ^ k \<le> x" .
  have "\<lfloor>x\<rfloor> + 1 \<le> 2 ^ (k + 1)" using k(3) by simp
  then have "(of_int (\<lfloor>x\<rfloor> + 1) :: rat) \<le> of_int (2 ^ (k + 1))" by (simp only: of_int_le_iff)
  moreover have "x < of_int (\<lfloor>x\<rfloor> + 1)" by linarith
  ultimately have hi: "x < 2 ^ (k + 1)" by simp
  have "pow2 (int k + 1) = 2 ^ (k + 1)" by (simp add: pow2_Suc pow2_nat)
  with lo hi e show ?thesis by (simp add: pow2_nat)
next
  case False
  with assms have y: "1 < 1 / x" by simp
  then have "2 \<le> \<lceil>1 / x\<rceil>" by linarith
  then have "1 \<le> \<lceil>1 / x\<rceil> - 1" by simp
  from bit_length_spec [OF this] obtain k :: nat where
    k: "bit_length (\<lceil>1 / x\<rceil> - 1) = int k + 1" "2 ^ k \<le> \<lceil>1 / x\<rceil> - 1"
       "\<lceil>1 / x\<rceil> - 1 < 2 ^ (k + 1)"
    by blast
  from False k(1) have e: "ilog2 x = - int (k + 1)" by (simp add: ilog2_def)
  have "\<lceil>1 / x\<rceil> \<le> 2 ^ (k + 1)" using k(3) by simp
  then have "(of_int \<lceil>1 / x\<rceil> :: rat) \<le> of_int (2 ^ (k + 1))" by (simp only: of_int_le_iff)
  then have "(of_int \<lceil>1 / x\<rceil> :: rat) \<le> 2 ^ (k + 1)" by simp
  with le_of_int_ceiling [of "1 / x"] have "1 / x \<le> 2 ^ (k + 1)" by (rule order_trans)
  with assms have lo: "1 / 2 ^ (k + 1) \<le> x" by (simp add: field_simps)
  have "(of_int (2 ^ k) :: rat) \<le> of_int (\<lceil>1 / x\<rceil> - 1)" using k(2) by (simp only: of_int_le_iff)
  moreover have "of_int (\<lceil>1 / x\<rceil> - 1) < 1 / x" by linarith
  ultimately have "2 ^ k < 1 / x" by simp
  with assms have hi: "x < 1 / 2 ^ k" by (simp add: field_simps)
  have "- int (k + 1) + 1 = - int k" by simp
  then have "pow2 (- int (k + 1) + 1) = 1 / 2 ^ k" by (simp only: pow2_neg_nat)
  with lo hi e show ?thesis using pow2_neg_nat [of "k + 1"] by simp
qed

lemma pow2_0: "pow2 0 = 1"
  by (simp add: pow2_def)

lemma ilog2_nonneg:
  assumes "1 \<le> x"
  shows "0 \<le> ilog2 x"
proof (rule ccontr)
  assume "\<not> 0 \<le> ilog2 x"
  then have "ilog2 x + 1 \<le> 0" by simp
  then have "pow2 (ilog2 x + 1) \<le> pow2 0" by (rule pow2_mono)
  moreover from assms have "x < pow2 (ilog2 x + 1)" using ilog2_spec [of x] by simp
  ultimately show False using assms by (simp add: pow2_0)
qed

lemma ilog2_le:
  assumes "0 < x" and "x \<le> pow2 k"
  shows "ilog2 x \<le> k"
proof (rule ccontr)
  assume "\<not> ilog2 x \<le> k"
  then have "k < ilog2 x" by simp
  then have "pow2 k < pow2 (ilog2 x)" by (rule pow2_strict_mono)
  moreover from assms(1) have "pow2 (ilog2 x) \<le> x" using ilog2_spec [of x] by simp
  ultimately show False using assms(2) by simp
qed

lemma ilog2_less:
  assumes "0 \<le> x" and "x < pow2 k" and "0 < k"
  shows "ilog2 x < k"
proof (cases "x = 0")
  case True
  have "ilog2 0 = 0" by (simp add: ilog2_def bit_length.simps)
  with True assms(3) show ?thesis by simp
next
  case False
  with assms(1) have x: "0 < x" by simp
  show ?thesis
  proof (rule ccontr)
    assume "\<not> ilog2 x < k"
    then have "k \<le> ilog2 x" by simp
    then have "pow2 k \<le> pow2 (ilog2 x)" by (rule pow2_mono)
    moreover from x have "pow2 (ilog2 x) \<le> x" using ilog2_spec [of x] by simp
    ultimately show False using assms(2) by simp
  qed
qed

lemma round_half_even_bounds:
  "of_int (round_half_even x) \<le> x + 1 \<and> x - 1 \<le> of_int (round_half_even x)"
proof -
  have "round_half_even x = \<lfloor>x\<rfloor> \<or> round_half_even x = \<lfloor>x\<rfloor> + 1"
    by (simp add: round_half_even_def Let_def)
  then show ?thesis by (rule disjE) (simp only:, linarith)+
qed

lemma round_half_even_nonneg:
  assumes "0 \<le> x"
  shows "0 \<le> round_half_even x"
proof -
  have "round_half_even x = \<lfloor>x\<rfloor> \<or> round_half_even x = \<lfloor>x\<rfloor> + 1"
    by (simp add: round_half_even_def Let_def)
  moreover from assms have "0 \<le> \<lfloor>x\<rfloor>" by simp
  ultimately show ?thesis by auto
qed

text \<open>The result of a rounding, when finite, is below \<open>2^1024\<close>.\<close>

lemma rnd64_Fin_bound:
  assumes "rnd64 x = Fin r"
  shows "\<bar>r\<bar> < pow2 1024"
proof (cases "x = 0")
  case True
  with assms have "r = 0" by (simp add: rnd64_def)
  then show ?thesis by (simp add: pow2_pos)
next
  case False
  define q where "q = pow2 (max (ilog2 \<bar>x\<bar>) (- 1022) - 52)"
  define y where "y = of_int (round_half_even (\<bar>x\<bar> / q)) * q"
  have q: "0 < q" by (simp add: q_def pow2_pos)
  then have "0 \<le> \<bar>x\<bar> / q" by simp
  then have "0 \<le> round_half_even (\<bar>x\<bar> / q)" by (rule round_half_even_nonneg)
  with q have y: "0 \<le> y" by (simp add: y_def)
  from assms False have fin: "\<not> 1024 \<le> ilog2 y" and r: "r = (if 0 < x then y else - y)"
    by (simp_all add: rnd64_def Let_def q_def y_def split: if_splits)
  from r y have ry: "\<bar>r\<bar> = y" by simp
  show ?thesis
  proof (cases "y = 0")
    case True
    with ry show ?thesis by (simp add: pow2_pos)
  next
    case False
    with y have "0 < y" by simp
    then have "y < pow2 (ilog2 y + 1)" using ilog2_spec [of y] by simp
    also from fin have "pow2 (ilog2 y + 1) \<le> pow2 1024" by (intro pow2_mono) simp
    finally show ?thesis using ry by simp
  qed
qed

text \<open>Rounding a rational of magnitude at most \<open>2^k\<close>, \<open>k \<le> 1023\<close>, gives a finite float.\<close>

lemma rnd64_finite:
  assumes "\<bar>x\<bar> \<le> pow2 k" and "k \<le> 1023"
  shows "\<exists>r. rnd64 x = Fin r"
proof (cases "x = 0")
  case True
  then show ?thesis by (simp add: rnd64_def)
next
  case False
  then have a: "0 < \<bar>x\<bar>" by simp
  define e where "e = max (ilog2 \<bar>x\<bar>) (- 1022)"
  define q where "q = pow2 (e - 52)"
  define y where "y = of_int (round_half_even (\<bar>x\<bar> / q)) * q"
  have q: "0 < q" by (simp add: q_def pow2_pos)
  from a assms(1) have "ilog2 \<bar>x\<bar> \<le> k" by (rule ilog2_le)
  with assms(2) have e: "e \<le> 1023" by (simp add: e_def)
  have "0 \<le> \<bar>x\<bar> / q" using q by simp
  then have "0 \<le> round_half_even (\<bar>x\<bar> / q)" by (rule round_half_even_nonneg)
  with q have y0: "0 \<le> y" by (simp add: y_def)
  have "of_int (round_half_even (\<bar>x\<bar> / q)) \<le> \<bar>x\<bar> / q + 1"
    using round_half_even_bounds [of "\<bar>x\<bar> / q"] by simp
  then have "y \<le> (\<bar>x\<bar> / q + 1) * q" unfolding y_def using q by (simp only: mult_le_cancel_right_pos)
  also have "\<dots> = \<bar>x\<bar> + q" using q by (simp add: field_simps)
  finally have y1: "y \<le> \<bar>x\<bar> + q" .
  have "\<bar>x\<bar> \<le> pow2 1023" using assms pow2_mono [of k 1023] by simp
  moreover have "q < pow2 1023" unfolding q_def using e by (intro pow2_strict_mono) simp
  moreover have "pow2 1024 = 2 * pow2 1023" using pow2_Suc [of 1023] by simp
  ultimately have "y < pow2 1024" using y1 by simp
  with y0 have "ilog2 y < 1024" by (intro ilog2_less) simp_all
  then have "\<not> 1024 \<le> ilog2 y" by simp
  with False show ?thesis by (simp add: rnd64_def Let_def e_def q_def y_def)
qed

subsection \<open>A finite result has finite operands\<close>

lemma bindE_InrE:
  assumes "bindE m f = Inr r"
  obtains v where "m = Inr v" and "f v = Inr r"
  using assms by (auto simp: bindE_eq_Inr)

lemma opE_InrE:
  assumes "opE f ea eb = Inr r"
  obtains a b where "ea = Inr a" and "eb = Inr b" and "f a b = Inr r"
  using assms by (auto simp: opE_def bindE_eq_Inr)

lemma fadd_finite: "is_finite (fadd x y) \<Longrightarrow> is_finite x \<and> is_finite y"
  by (cases x; cases y) (simp_all add: fadd_def is_finite_def)

lemma fneg_finite: "is_finite (fneg x) = is_finite x"
  by (cases x) (simp_all add: fneg_def is_finite_def)

lemma fsub_finite: "is_finite (fsub x y) \<Longrightarrow> is_finite x \<and> is_finite y"
  using fadd_finite [of x "fneg y"] by (simp add: fsub_def fneg_finite)

lemma fmul_finite: "is_finite (fmul x y) \<Longrightarrow> is_finite x \<and> is_finite y"
  by (cases x; cases y) (simp_all add: fmul_def is_finite_def split: if_splits)

lemma fdiv_finite: "is_finite (fdiv x (Fin d)) \<Longrightarrow> is_finite x"
  by (cases x) (simp_all add: fdiv_def is_finite_def split: if_splits)

lemma float_of_int_finite: "float_of_int n = Inr x \<Longrightarrow> is_finite x"
  by (cases "rnd64 (of_int n)") (auto simp: float_of_int_def is_finite_def)

lemma as_float_finite:
  assumes "as_float v = Inr x"
  shows "is_finite x = finite_value v"
proof (cases v)
  case (I n)
  with assms have "float_of_int n = Inr x" by (simp add: as_float_def)
  then have "is_finite x" by (rule float_of_int_finite)
  with I show ?thesis by (simp add: finite_value_def)
next
  case (F y)
  with assms show ?thesis by (simp add: as_float_def finite_value_def)
qed

lemma float_op_finite:
  assumes "float_op f a b = Inr v" and "finite_value v"
    and "\<And>x y. is_finite (f x y) \<Longrightarrow> is_finite x \<and> is_finite y"
  shows "finite_value a \<and> finite_value b"
proof -
  from assms(1) obtain x where x: "as_float a = Inr x"
    and r: "bindE (as_float b) (\<lambda>y. Inr (F (f x y))) = Inr v"
    unfolding float_op_def by (rule bindE_InrE)
  from r obtain y where y: "as_float b = Inr y" and v: "v = F (f x y)"
    by (auto simp: bindE_eq_Inr)
  from v assms(2) have "is_finite (f x y)" by (simp add: finite_value_def)
  then have "is_finite x \<and> is_finite y" by (rule assms(3))
  with x y show ?thesis by (simp add: as_float_finite)
qed

lemma py_add_finite:
  assumes "py_add a b = Inr v" and "finite_value v"
  shows "finite_value a \<and> finite_value b"
proof (cases "\<exists>m n. a = I m \<and> b = I n")
  case True
  then show ?thesis by (auto simp: finite_value_def)
next
  case False
  then have "py_add a b = float_op fadd a b"
    by (cases a; cases b) (simp_all add: py_add_def)
  with assms(1) have "float_op fadd a b = Inr v" by simp
  then show ?thesis using assms(2) fadd_finite by (rule float_op_finite)
qed

lemma py_sub_finite:
  assumes "py_sub a b = Inr v" and "finite_value v"
  shows "finite_value a \<and> finite_value b"
proof (cases "\<exists>m n. a = I m \<and> b = I n")
  case True
  then show ?thesis by (auto simp: finite_value_def)
next
  case False
  then have "py_sub a b = float_op fsub a b"
    by (cases a; cases b) (simp_all add: py_sub_def)
  with assms(1) have "float_op fsub a b = Inr v" by simp
  then show ?thesis using assms(2) fsub_finite by (rule float_op_finite)
qed

lemma py_mul_finite:
  assumes "py_mul a b = Inr v" and "finite_value v"
  shows "finite_value a \<and> finite_value b"
proof (cases "\<exists>m n. a = I m \<and> b = I n")
  case True
  then show ?thesis by (auto simp: finite_value_def)
next
  case False
  then have "py_mul a b = float_op fmul a b"
    by (cases a; cases b) (simp_all add: py_mul_def)
  with assms(1) have "float_op fmul a b = Inr v" by simp
  then show ?thesis using assms(2) fmul_finite by (rule float_op_finite)
qed

lemma py_truediv_float:
  "py_truediv a (F y) =
     bindE (as_float a) (\<lambda>x. if y = Fin 0 then Inl ZeroDivisionError else Inr (F (fdiv x y)))"
  by (cases a) (simp_all add: py_truediv_def as_float_def)

lemma py_truediv_finite:
  assumes "py_truediv a (F (Fin d)) = Inr v" and "finite_value v"
  shows "finite_value a"
proof -
  from assms(1) obtain x where x: "as_float a = Inr x"
    and r: "(if Fin d = Fin 0 then Inl ZeroDivisionError else Inr (F (fdiv x (Fin d)))) = Inr v"
    unfolding py_truediv_float by (rule bindE_InrE)
  from r have v: "v = F (fdiv x (Fin d))" by (simp split: if_splits)
  from v assms(2) have "is_finite (fdiv x (Fin d))" by (simp add: finite_value_def)
  then have "is_finite x" by (rule fdiv_finite)
  with x show ?thesis by (simp add: as_float_finite)
qed

text \<open>The same facts on expressions.\<close>

lemma opE_add_finite:
  assumes "opE py_add ea eb = Inr v" and "finite_value v"
  obtains a b where "ea = Inr a" and "eb = Inr b" and "finite_value a" and "finite_value b"
proof -
  from assms(1) obtain a b where a: "ea = Inr a" and b: "eb = Inr b"
    and v: "py_add a b = Inr v"
    by (rule opE_InrE)
  from v assms(2) have "finite_value a \<and> finite_value b" by (rule py_add_finite)
  with a b show ?thesis by (intro that [of a b]) simp_all
qed

lemma opE_sub_finite:
  assumes "opE py_sub ea eb = Inr v" and "finite_value v"
  obtains a b where "ea = Inr a" and "eb = Inr b" and "finite_value a" and "finite_value b"
proof -
  from assms(1) obtain a b where a: "ea = Inr a" and b: "eb = Inr b"
    and v: "py_sub a b = Inr v"
    by (rule opE_InrE)
  from v assms(2) have "finite_value a \<and> finite_value b" by (rule py_sub_finite)
  with a b show ?thesis by (intro that [of a b]) simp_all
qed

lemma opE_mul_finite:
  assumes "opE py_mul ea eb = Inr v" and "finite_value v"
  obtains a b where "ea = Inr a" and "eb = Inr b" and "finite_value a" and "finite_value b"
proof -
  from assms(1) obtain a b where a: "ea = Inr a" and b: "eb = Inr b"
    and v: "py_mul a b = Inr v"
    by (rule opE_InrE)
  from v assms(2) have "finite_value a \<and> finite_value b" by (rule py_mul_finite)
  with a b show ?thesis by (intro that [of a b]) simp_all
qed

lemma opE_truediv_finite:
  assumes "opE py_truediv ea (lit d) = Inr v" and "finite_value v"
  obtains a where "ea = Inr a" and "finite_value a"
proof -
  from assms(1) obtain a b where a: "ea = Inr a" and b: "lit d = Inr b"
    and v: "py_truediv a b = Inr v"
    by (rule opE_InrE)
  from b have "b = F (Fin d)" by (simp add: lit_def)
  with v have "py_truediv a (F (Fin d)) = Inr v" by simp
  then have "finite_value a" using assms(2) by (rule py_truediv_finite)
  with a show ?thesis by (rule that)
qed

lemma py_add_float_left: "py_add (F x) b = Inr v \<Longrightarrow> \<exists>y. v = F y"
  by (cases b) (auto simp: py_add_def float_op_def bindE_eq_Inr)

lemma py_mul_float_left: "py_mul (F x) b = Inr v \<Longrightarrow> \<exists>y. v = F y"
  by (cases b) (auto simp: py_mul_def float_op_def bindE_eq_Inr)

lemma setup_line86:
  assumes "opE py_sub (opE py_truediv (var t) (lit 2)) (lit 64000) = Inr v1"
    and "finite_value v1"
  shows "finite_value t"
proof -
  from assms obtain d where "opE py_truediv (var t) (lit 2) = Inr d" and "finite_value d"
    by (rule opE_sub_finite) blast
  then obtain a where "var t = Inr a" and "finite_value a"
    by (rule opE_truediv_finite) blast
  then show ?thesis by (simp add: var_def)
qed

lemma setup_line90:
  assumes "opE py_truediv
             (opE py_add
                (opE py_truediv (opE py_mul (opE py_mul (item dig ''P3'') (var v1)) (var v1))
                                (lit 524288))
                (opE py_mul (item dig ''P2'') (var v1)))
             (lit 524288) = Inr v5"
    and "finite_value v5"
  shows "finite_value v1"
proof -
  from assms obtain s where
    "opE py_add
       (opE py_truediv (opE py_mul (opE py_mul (item dig ''P3'') (var v1)) (var v1))
                       (lit 524288))
       (opE py_mul (item dig ''P2'') (var v1)) = Inr s" and "finite_value s"
    by (rule opE_truediv_finite) blast
  then obtain m where "opE py_mul (item dig ''P2'') (var v1) = Inr m" and "finite_value m"
    by (rule opE_add_finite) blast
  then obtain b where "var v1 = Inr b" and "finite_value b"
    by (rule opE_mul_finite) blast
  then show ?thesis by (simp add: var_def)
qed

lemma setup_line91:
  assumes "opE py_mul (opE py_add (lit 1) (opE py_truediv (var v5) (lit 32768)))
                      (item dig ''P1'') = Inr v"
    and "finite_value v"
  shows "finite_value v5"
proof -
  from assms obtain s where
    "opE py_add (lit 1) (opE py_truediv (var v5) (lit 32768)) = Inr s" and "finite_value s"
    by (rule opE_mul_finite) blast
  then obtain d where "opE py_truediv (var v5) (lit 32768) = Inr d" and "finite_value d"
    by (rule opE_add_finite) blast
  then obtain a where "var v5 = Inr a" and "finite_value a"
    by (rule opE_truediv_finite) blast
  then show ?thesis by (simp add: var_def)
qed

lemma setup_line91_float:
  assumes "opE py_mul (opE py_add (lit 1) (opE py_truediv (var v5) (lit 32768)))
                      (item dig ''P1'') = Inr v"
  shows "\<exists>y. v = F y"
proof -
  from assms obtain s b where
    s: "opE py_add (lit 1) (opE py_truediv (var v5) (lit 32768)) = Inr s"
    and m: "py_mul s b = Inr v"
    by (rule opE_InrE) blast
  from s obtain c d where "lit 1 = Inr c" and "py_add c d = Inr s"
    by (rule opE_InrE) blast
  then have "py_add (F (Fin 1)) d = Inr s" by (simp add: lit_def)
  then obtain x where "s = F x" using py_add_float_left by blast
  with m show ?thesis using py_mul_float_left by blast
qed

text \<open>When the setup of the pressure compensation ends with a finite \<open>var1\<close>, the
  \<open>t_fine\<close> it started from was finite; and its \<open>var1\<close> is always a float.\<close>

lemma read_data_pressure_setup_finite:
  assumes "read_data_pressure_setup dig t = Inr (var1, var2)" and "finite_value var1"
  shows "finite_value t"
  using assms(1) unfolding read_data_pressure_setup_def
proof (elim bindE_InrE)
  fix a1 a2 a3 a4 a5 a6
  assume l86: "opE py_sub (opE py_truediv (var t) (lit 2)) (lit 64000) = Inr a1"
    and l90: "opE py_truediv
               (opE py_add
                  (opE py_truediv (opE py_mul (opE py_mul (item dig ''P3'') (var a1)) (var a1))
                                  (lit 524288))
                  (opE py_mul (item dig ''P2'') (var a1)))
               (lit 524288) = Inr a5"
    and l91: "opE py_mul (opE py_add (lit 1) (opE py_truediv (var a5) (lit 32768)))
                         (item dig ''P1'') = Inr a6"
    and r: "Inr (a6, a4) = Inr (var1, var2)"
  from r assms(2) have "finite_value a6" by simp
  with l91 have "finite_value a5" by (rule setup_line91)
  with l90 have "finite_value a1" by (rule setup_line90)
  with l86 show "finite_value t" by (rule setup_line86)
qed

lemma read_data_pressure_setup_float:
  assumes "read_data_pressure_setup dig t = Inr (var1, var2)"
  shows "\<exists>y. var1 = F y"
  using assms unfolding read_data_pressure_setup_def
proof (elim bindE_InrE)
  fix a4 a5 a6
  assume l91: "opE py_mul (opE py_add (lit 1) (opE py_truediv (var a5) (lit 32768)))
                         (item dig ''P1'') = Inr a6"
    and r: "Inr (a6, a4) = Inr (var1, var2)"
  from l91 have "\<exists>y. a6 = F y" by (rule setup_line91_float)
  with r show "\<exists>y. var1 = F y" by simp
qed

lemma fadd_Fin_bound: "fadd x y = Fin r \<Longrightarrow> \<bar>r\<bar> < pow2 1024"
  by (cases x; cases y)
     (auto simp: fadd_def is_finite_def split: if_splits dest: rnd64_Fin_bound)

lemma py_add_bound:
  assumes "py_add a b = Inr (F (Fin r))"
  shows "\<bar>r\<bar> < pow2 1024"
proof -
  have "\<not> (\<exists>m n. a = I m \<and> b = I n)" using assms by (auto simp: py_add_def)
  then have "py_add a b = float_op fadd a b"
    by (cases a; cases b) (simp_all add: py_add_def)
  with assms obtain x y where "fadd x y = Fin r"
    by (auto simp: float_op_def bindE_eq_Inr)
  then show ?thesis by (rule fadd_Fin_bound)
qed

lemma as_float_bound:
  assumes "as_float v = Inr (Fin r)" and "\<And>s. v = F (Fin s) \<Longrightarrow> \<bar>s\<bar> < pow2 1024"
  shows "\<bar>r\<bar> < pow2 1024"
proof (cases v)
  case (I n)
  with assms(1) have "rnd64 (of_int n) = Fin r"
    by (cases "rnd64 (of_int n)") (simp_all add: as_float_def float_of_int_def)
  then show ?thesis by (rule rnd64_Fin_bound)
next
  case (F y)
  with assms(1) have "v = F (Fin r)" by (simp add: as_float_def)
  then show ?thesis by (rule assms(2))
qed

lemma temp_c_finite:
  assumes "py_truediv t (F (Fin 5120)) = Inr c" and "finite_value t"
    and "\<And>s. t = F (Fin s) \<Longrightarrow> \<bar>s\<bar> < pow2 1024"
  shows "\<exists>r. c = F (Fin r)"
proof -
  from assms(1) obtain x where x: "as_float t = Inr x"
    and r: "(if Fin 5120 = Fin 0 then Inl ZeroDivisionError
             else Inr (F (fdiv x (Fin 5120)))) = Inr c"
    unfolding py_truediv_float by (rule bindE_InrE)
  from r have c: "c = F (fdiv x (Fin 5120))" by simp
  from x assms(2) have "is_finite x" by (simp add: as_float_finite)
  then obtain a where a: "x = Fin a" by (cases x) (simp_all add: is_finite_def)
  with x have "as_float t = Inr (Fin a)" by simp
  then have b: "\<bar>a\<bar> < pow2 1024" using assms(3) by (rule as_float_bound)
  have "pow2 1024 = 2 * pow2 1023" using pow2_Suc [of 1023] by simp
  with b have "\<bar>a\<bar> / 2 \<le> pow2 1023" by simp
  moreover have "\<bar>a / 5120\<bar> \<le> \<bar>a\<bar> / 2" by simp
  ultimately have "\<bar>a / 5120\<bar> \<le> pow2 1023" by (rule order_trans [rotated])
  then obtain q where "rnd64 (a / 5120) = Fin q" using rnd64_finite [of "a / 5120" 1023] by auto
  with a c show ?thesis by (simp add: fdiv_def)
qed

lemma read_data_temperature_finite:
  assumes "read_data_temperature libm_pow dig adc_t = Inr (t_fine, temp_c)"
    and "finite_value t_fine"
  shows "\<exists>r. temp_c = F (Fin r)"
  using assms(1) unfolding read_data_temperature_def
proof (elim bindE_InrE)
  fix v1 v2 tf tc
  assume s: "py_add v1 v2 = Inr tf"
    and d: "py_truediv tf (F (Fin 5120)) = Inr tc"
    and r: "Inr (tf, tc) = Inr (t_fine, temp_c)"
  from r have tf: "tf = t_fine" and tc: "tc = temp_c" by simp_all
  have "\<And>s. t_fine = F (Fin s) \<Longrightarrow> \<bar>s\<bar> < pow2 1024"
    using s tf py_add_bound by simp
  with d assms(2) show "\<exists>r. temp_c = F (Fin r)"
    unfolding tf tc by (rule temp_c_finite)
qed

subsection \<open>No division by zero\<close>

lemma nz_as_float: "as_float v \<noteq> Inl ZeroDivisionError"
  by (cases v) (simp_all add: as_float_def float_of_int_def split: pyfloat.splits)

lemma nz_float_op: "float_op f a b \<noteq> Inl ZeroDivisionError"
  using nz_as_float [of a] nz_as_float [of b]
  by (cases "as_float a"; cases "as_float b") (simp_all add: float_op_def)

lemma nz_py_add: "py_add a b \<noteq> Inl ZeroDivisionError"
  by (cases a; cases b) (simp_all add: py_add_def nz_float_op)

lemma nz_py_sub: "py_sub a b \<noteq> Inl ZeroDivisionError"
  by (cases a; cases b) (simp_all add: py_sub_def nz_float_op)

lemma nz_py_mul: "py_mul a b \<noteq> Inl ZeroDivisionError"
  by (cases a; cases b) (simp_all add: py_mul_def nz_float_op)

lemma nz_py_truediv: "y \<noteq> Fin 0 \<Longrightarrow> py_truediv a (F y) \<noteq> Inl ZeroDivisionError"
  using nz_as_float [of a] by (cases "as_float a") (simp_all add: py_truediv_float)

lemma nz_py_truediv_lit: "r \<noteq> 0 \<Longrightarrow> py_truediv a (F (Fin r)) \<noteq> Inl ZeroDivisionError"
  by (rule nz_py_truediv) simp

lemma nz_float_pow2: "float_pow2 libm_pow x \<noteq> Inl ZeroDivisionError"
  by (cases x) (simp_all add: float_pow2_def split: pyfloat.splits)

lemma nz_py_pow2: "py_pow2 libm_pow v \<noteq> Inl ZeroDivisionError"
proof (cases v)
  case (I m)
  then show ?thesis by (simp add: py_pow2_def)
next
  case (F x)
  then show ?thesis
    using nz_float_pow2 [of libm_pow x]
    by (cases "float_pow2 libm_pow x") (simp_all add: py_pow2_def)
qed

lemma nz_num: "num n \<noteq> Inl ZeroDivisionError"
  by (simp add: num_def)

lemma nz_lit: "lit r \<noteq> Inl ZeroDivisionError"
  by (simp add: lit_def)

lemma nz_var: "var v \<noteq> Inl ZeroDivisionError"
  by (simp add: var_def)

lemma nz_item: "item d k \<noteq> Inl ZeroDivisionError"
  by (cases "d k") (simp_all add: item_def py_dict_get_def)

lemma nz_bindE:
  assumes "m \<noteq> Inl ZeroDivisionError" and "\<And>v. f v \<noteq> Inl ZeroDivisionError"
  shows "bindE m f \<noteq> Inl ZeroDivisionError"
  using assms by (cases m) simp_all

lemma nz_opE:
  assumes "ea \<noteq> Inl ZeroDivisionError" and "eb \<noteq> Inl ZeroDivisionError"
    and "\<And>a b. eb = Inr b \<Longrightarrow> f a b \<noteq> Inl ZeroDivisionError"
  shows "opE f ea eb \<noteq> Inl ZeroDivisionError"
  using assms by (cases ea; cases eb) (simp_all add: opE_def)

lemma nz_add:
  "ea \<noteq> Inl ZeroDivisionError \<Longrightarrow> eb \<noteq> Inl ZeroDivisionError \<Longrightarrow>
   opE py_add ea eb \<noteq> Inl ZeroDivisionError"
  by (rule nz_opE) (simp_all add: nz_py_add)

lemma nz_sub:
  "ea \<noteq> Inl ZeroDivisionError \<Longrightarrow> eb \<noteq> Inl ZeroDivisionError \<Longrightarrow>
   opE py_sub ea eb \<noteq> Inl ZeroDivisionError"
  by (rule nz_opE) (simp_all add: nz_py_sub)

lemma nz_mul:
  "ea \<noteq> Inl ZeroDivisionError \<Longrightarrow> eb \<noteq> Inl ZeroDivisionError \<Longrightarrow>
   opE py_mul ea eb \<noteq> Inl ZeroDivisionError"
  by (rule nz_opE) (simp_all add: nz_py_mul)

lemma nz_div_lit:
  assumes "ea \<noteq> Inl ZeroDivisionError" and "r \<noteq> 0"
  shows "opE py_truediv ea (lit r) \<noteq> Inl ZeroDivisionError"
  using assms(1) nz_lit
proof (rule nz_opE)
  fix a b
  assume "lit r = Inr b"
  then have "b = F (Fin r)" by (simp add: lit_def)
  with assms(2) show "py_truediv a b \<noteq> Inl ZeroDivisionError" by (simp add: nz_py_truediv_lit)
qed

lemma nz_div_var:
  assumes "ea \<noteq> Inl ZeroDivisionError" and "y \<noteq> Fin 0"
  shows "opE py_truediv ea (var (F y)) \<noteq> Inl ZeroDivisionError"
  using assms(1) nz_var
proof (rule nz_opE)
  fix a b
  assume "var (F y) = Inr b"
  then have "b = F y" by (simp add: var_def)
  with assms(2) show "py_truediv a b \<noteq> Inl ZeroDivisionError" by (simp add: nz_py_truediv)
qed

lemmas nz_intros = nz_bindE nz_add nz_sub nz_mul nz_div_lit nz_num nz_lit nz_var nz_item
  nz_py_pow2 nz_py_add nz_py_truediv_lit

lemma nz_read_data_temperature:
  "read_data_temperature libm_pow dig adc_t \<noteq> Inl ZeroDivisionError"
  unfolding read_data_temperature_def by (intro nz_intros) simp_all

lemma nz_read_data_pressure_setup:
  "read_data_pressure_setup dig t_fine \<noteq> Inl ZeroDivisionError"
  unfolding read_data_pressure_setup_def by (intro nz_intros) simp_all

lemma nz_read_data_pressure:
  "read_data_pressure dig adc_p (F y) var2 \<noteq> Inl ZeroDivisionError"
proof (cases "y = Fin 0")
  case True
  then show ?thesis by (simp add: read_data_pressure_def py_eq_zero_def)
next
  case False
  then have "\<not> py_eq_zero (F y)" by (simp add: py_eq_zero_def)
  then have "read_data_pressure dig adc_p (F y) var2 =
      bindE (opE py_sub (lit 1048576) (num adc_p)) (\<lambda>p.
      bindE (opE py_truediv
               (opE py_mul (opE py_sub (var p) (opE py_truediv (var var2) (lit 4096)))
                           (lit 6250))
               (var (F y))) (\<lambda>p.
      bindE (opE py_truediv (opE py_mul (opE py_mul (item dig ''P9'') (var p)) (var p))
                            (lit 2147483648)) (\<lambda>var1.
      bindE (opE py_truediv (opE py_mul (var p) (item dig ''P8'')) (lit 32768)) (\<lambda>var2.
      opE py_add (var p)
         (opE py_truediv (opE py_add (opE py_add (var var1) (var var2)) (item dig ''P7''))
                         (lit 16))))))"
    by (simp only: read_data_pressure_def if_False)
  also have "\<dots> \<noteq> Inl ZeroDivisionError"
    using False by (intro nz_intros nz_div_var) simp_all
  finally show ?thesis .
qed

lemma nz_compensate: "compensate libm_pow dig adc_t adc_p \<noteq> Inl ZeroDivisionError"
proof (cases "read_data_temperature libm_pow dig adc_t")
  case (Inl e)
  with nz_read_data_temperature [of libm_pow dig adc_t] show ?thesis
    by (simp add: compensate_def)
next
  case t: (Inr tt)
  obtain t_fine temp_c where tt: "tt = (t_fine, temp_c)" by (cases tt)
  show ?thesis
  proof (cases "read_data_pressure_setup dig t_fine")
    case (Inl e)
    with t tt nz_read_data_pressure_setup [of dig t_fine] show ?thesis
      by (simp add: compensate_def)
  next
    case s: (Inr vv)
    obtain var1 var2 where vv: "vv = (var1, var2)" by (cases vv)
    from s vv obtain y where y: "var1 = F y"
      using read_data_pressure_setup_float [of dig t_fine var1 var2] by auto
    show ?thesis
    proof (cases "read_data_pressure dig adc_p var1 var2")
      case (Inl e)
      with t tt s vv y nz_read_data_pressure [of dig adc_p y var2] show ?thesis
        by (simp add: compensate_def)
    next
      case p: (Inr pressure)
      have "py_truediv pressure (F (Fin 100)) \<noteq> Inl ZeroDivisionError"
        by (rule nz_py_truediv_lit) simp
      with t tt s vv p show ?thesis
        by (cases "py_truediv pressure (F (Fin 100))") (simp_all add: compensate_def)
    qed
  qed
qed

lemma compensate_zero_var1:
  assumes "read_data_temperature libm_pow dig adc_t = Inr (t_fine, temp_c)"
    and "read_data_pressure_setup dig t_fine = Inr (var1, var2)"
    and "py_eq_zero var1"
  shows "compensate libm_pow dig adc_t adc_p = Inr (temp_c, F (Fin 0))"
proof -
  have "py_truediv (I 0) (F (Fin 100)) = Inr (F (Fin 0))"
    by (simp add: py_truediv_float as_float_def float_of_int_def fdiv_def rnd64_def)
  with assms show ?thesis by (simp add: compensate_def read_data_pressure_def)
qed

text \<open>
  Claim C2. For every calibration set \<open>dig\<close>, every raw temperature code \<open>adc_t\<close> and
  every raw pressure code \<open>adc_p\<close> (and every C library \<open>pow\<close>): when the temperature
  steps return \<open>(t_fine, temp_c)\<close>, the setup of the pressure compensation returns
  \<open>(var1, var2)\<close>, and the test \<open>var1 == 0\<close> of line 93 succeeds, then \<open>read_data\<close> returns
  \<open>temp_c\<close> with the pressure \<open>0 / 100.0 = 0.0\<close>, exactly; \<open>temp_c\<close> is a finite float, neither
  NaN nor an infinity, \<open>t_fine\<close> is finite, and \<open>var1\<close> is the float zero. And for all inputs
  whatsoever the compensation never raises ZeroDivisionError: its one division by a
  computed value, line 96, is behind the test, and every other divisor is a literal that
  is not zero.
\<close>

theorem zero_var1_guard:
  assumes "read_data_temperature libm_pow dig adc_t = Inr (t_fine, temp_c)"
    and "read_data_pressure_setup dig t_fine = Inr (var1, var2)"
    and "py_eq_zero var1"
  shows "compensate libm_pow dig adc_t adc_p = Inr (temp_c, F (Fin 0)) \<and>
     (\<exists>r. temp_c = F (Fin r)) \<and> finite_value t_fine \<and> var1 = F (Fin 0) \<and>
     compensate libm_pow' dig' adc_t' adc_p' \<noteq> Inl ZeroDivisionError"
proof -
  from assms(2) obtain y where "var1 = F y" using read_data_pressure_setup_float by blast
  with assms(3) have v: "var1 = F (Fin 0)" by (simp add: py_eq_zero_def)
  then have "finite_value var1" by (simp add: finite_value_def is_finite_def)
  with assms(2) have t: "finite_value t_fine" by (rule read_data_pressure_setup_finite)
  with assms(1) have "\<exists>r. temp_c = F (Fin r)" by (rule read_data_temperature_finite)
  moreover from assms have "compensate libm_pow dig adc_t adc_p = Inr (temp_c, F (Fin 0))"
    by (rule compensate_zero_var1)
  ultimately show ?thesis using t v nz_compensate by simp
qed

theorem zero_var1_guard_witness:
  "read_data_temperature libm_rn (reference_dig(''P1'' \<mapsto> 0)) 519888 =
     Inr (F (Fin (1077284224155 / 8388608)), F (Fin (215456844831 / 8589934592))) \<and>
   read_data_pressure_setup (reference_dig(''P1'' \<mapsto> 0)) (F (Fin (1077284224155 / 8388608))) =
     Inr (F (Fin 0), F (Fin (6278707250732471 / 33554432))) \<and>
   py_eq_zero (F (Fin 0)) \<and>
   compensate libm_rn (reference_dig(''P1'' \<mapsto> 0)) 519888 415148 =
     Inr (F (Fin (215456844831 / 8589934592)), F (Fin 0))"
proof -
  have t: "read_data_temperature libm_rn (reference_dig(''P1'' \<mapsto> 0)) 519888 =
     Inr (F (Fin (1077284224155 / 8388608)), F (Fin (215456844831 / 8589934592)))"
    by (simp add: read_data_temperature_def reference_dig_def libm_rn_def float_eval)
  have s: "read_data_pressure_setup (reference_dig(''P1'' \<mapsto> 0))
       (F (Fin (1077284224155 / 8388608))) =
     Inr (F (Fin 0), F (Fin (6278707250732471 / 33554432)))"
    by (simp add: read_data_pressure_setup_def reference_dig_def float_eval)
  have z: "py_eq_zero (F (Fin 0))" by (simp add: py_eq_zero_def)
  from zero_var1_guard [OF t s z, of 415148] t s z show ?thesis by simp
qed

end
